theory Spec2Isabelle
  imports Complex_Main "HOL-Library.Log_Nat"
begin

section \<open>JavaScript numbers\<close>

text \<open>
  A JavaScript Number is an IEEE 754 binary64 value. \<open>Fin m e\<close> stands for the finite value
  \<open>m * 2 ^ e\<close>, kept in the form where \<open>m\<close> is odd (or \<open>m = 0\<close> and \<open>e = 0\<close>), so that equal
  numbers are equal terms. The two zeros are not told apart: no operation of the program
  below can observe the sign of a zero. Every arithmetic result is the exact result rounded
  to the nearest representable value, ties to the even significand (\<open>fl_ratio\<close>).
\<close>

datatype jsnum = Fin int int | PosInf | NegInf | NaN

function canonical :: "int \<Rightarrow> int \<Rightarrow> jsnum" where
  "canonical m e =
     (if m = 0 then Fin 0 0
      else if even m then canonical (m div 2) (e + 1)
      else Fin m e)"
  by pat_completeness auto
termination
  by (relation "measure (\<lambda>(m, e). nat \<bar>m\<bar>)") auto

declare canonical.simps [simp del]

definition round_div :: "int \<Rightarrow> int \<Rightarrow> int" where
  "round_div n d =
     (let q = n div d; r = n mod d
      in if 2 * r < d then q
         else if d < 2 * r then q + 1
         else if even q then q else q + 1)"

definition fl_ratio :: "int \<Rightarrow> int \<Rightarrow> jsnum" where
  "fl_ratio a b =
     (if a = 0 then Fin 0 0
      else
        let n = \<bar>a\<bar>;
            t = bitlen n - bitlen b;
            l = (if (if 0 \<le> t then b * 2 ^ nat t \<le> n else b \<le> n * 2 ^ nat (- t))
                 then t else t - 1);
            e = max (l - 52) (- 1074);
            m = (if 0 \<le> e then round_div n (b * 2 ^ nat e)
                 else round_div (n * 2 ^ nat (- e)) b)
        in if 971 < e \<or> (e = 971 \<and> 2 ^ 53 \<le> m)
           then (if 0 < a then PosInf else NegInf)
           else canonical (if 0 < a then m else - m) e)"

definition fl_binary :: "int \<Rightarrow> int \<Rightarrow> jsnum" where
  "fl_binary m e =
     (if 0 \<le> e then fl_ratio (m * 2 ^ nat e) 1 else fl_ratio m (2 ^ nat (- e)))"

fun jsadd :: "jsnum \<Rightarrow> jsnum \<Rightarrow> jsnum" where
  "jsadd (Fin m1 e1) (Fin m2 e2) =
     (let e = min e1 e2
      in fl_binary (m1 * 2 ^ nat (e1 - e) + m2 * 2 ^ nat (e2 - e)) e)"
| "jsadd NaN _ = NaN"
| "jsadd _ NaN = NaN"
| "jsadd PosInf NegInf = NaN"
| "jsadd NegInf PosInf = NaN"
| "jsadd PosInf _ = PosInf"
| "jsadd _ PosInf = PosInf"
| "jsadd NegInf _ = NegInf"
| "jsadd _ NegInf = NegInf"

definition signed_inf :: "bool \<Rightarrow> jsnum" where
  "signed_inf negative = (if negative then NegInf else PosInf)"

fun jsmul :: "jsnum \<Rightarrow> jsnum \<Rightarrow> jsnum" where
  "jsmul (Fin m1 e1) (Fin m2 e2) = fl_binary (m1 * m2) (e1 + e2)"
| "jsmul NaN _ = NaN"
| "jsmul _ NaN = NaN"
| "jsmul (Fin m e) PosInf = (if m = 0 then NaN else signed_inf (m < 0))"
| "jsmul (Fin m e) NegInf = (if m = 0 then NaN else signed_inf (0 < m))"
| "jsmul PosInf (Fin m e) = (if m = 0 then NaN else signed_inf (m < 0))"
| "jsmul NegInf (Fin m e) = (if m = 0 then NaN else signed_inf (0 < m))"
| "jsmul PosInf PosInf = PosInf"
| "jsmul NegInf NegInf = PosInf"
| "jsmul PosInf NegInf = NegInf"
| "jsmul NegInf PosInf = NegInf"

text \<open>
  The values a binary64 can hold: zero, or an odd significand below \<open>2 ^ 53\<close> with an exponent
  from \<open>- 1074\<close> on and a magnitude below \<open>2 ^ 1024\<close>, or an infinity, or NaN.
\<close>

definition is_double :: "jsnum \<Rightarrow> bool" where
  "is_double x =
     (case x of
        Fin m e \<Rightarrow>
          (m = 0 \<and> e = 0) \<or>
          (odd m \<and> \<bar>m\<bar> < 2 ^ 53 \<and> - 1074 \<le> e \<and> bitlen \<bar>m\<bar> + e \<le> 1024)
      | _ \<Rightarrow> True)"



section \<open>Strings\<close>

definition is_digit :: "char \<Rightarrow> bool" where
  "is_digit c = (c \<in> set ''0123456789'')"

definition is_space :: "char \<Rightarrow> bool" where
  "is_space c = (of_char c \<in> {9, 10, 11, 12, 13, 32, 160 :: nat})"

definition digit_val :: "char \<Rightarrow> int" where
  "digit_val c = of_char c - 48"

definition digit_char :: "int \<Rightarrow> char" where
  "digit_char d = ''0123456789'' ! nat d"

definition digits_val :: "string \<Rightarrow> int" where
  "digits_val ds = foldl (\<lambda>n c. 10 * n + digit_val c) 0 ds"

function decimal :: "int \<Rightarrow> string" where
  "decimal n = (if n < 10 then [digit_char n] else decimal (n div 10) @ [digit_char (n mod 10)])"
  by pat_completeness auto
termination
  by (relation "measure nat") auto

declare decimal.simps [simp del]

subsection \<open>Number::toString\<close>

definition decimal_position :: "int \<Rightarrow> int \<Rightarrow> int" where
  "decimal_position a b =
     (if b \<le> a then int (length (decimal (a div b)))
      else let d = length (decimal (b div a))
           in if b \<le> a * 10 ^ (d - 1) then 2 - int d else 1 - int d)"

definition scale10 :: "int \<Rightarrow> int \<Rightarrow> int \<Rightarrow> int \<times> int" where
  "scale10 a b p = (if 0 \<le> p then (a, b * 10 ^ nat p) else (a * 10 ^ nat (- p), b))"

definition round_trips :: "jsnum \<Rightarrow> int \<Rightarrow> int \<Rightarrow> bool" where
  "round_trips x s p = (case scale10 s 1 (- p) of (c, d) \<Rightarrow> fl_ratio c d = x)"

definition digit_candidates :: "int \<Rightarrow> int \<Rightarrow> int \<Rightarrow> nat \<Rightarrow> (int \<times> int) list" where
  "digit_candidates a b n k =
     (case scale10 a b (n - int k) of (c, d) \<Rightarrow>
        let lo = c div d; r = c mod d;
            up = (if lo + 1 = 10 ^ k then (10 ^ (k - 1), n + 1) else (lo + 1, n));
            down = (if lo < 10 ^ (k - 1) then [] else [(lo, n)])
        in if 2 * r < d \<or> (2 * r = d \<and> even lo) then down @ [up] else up # down)"

fun shortest_digits :: "jsnum \<Rightarrow> int \<Rightarrow> int \<Rightarrow> int \<Rightarrow> nat \<Rightarrow> nat \<Rightarrow> int \<times> int" where
  "shortest_digits x a b n k 0 = (case scale10 a b (n - int k) of (c, d) \<Rightarrow> (c div d, n))"
| "shortest_digits x a b n k (Suc fuel) =
     (case filter (\<lambda>(s, n'). round_trips x s (n' - int k)) (digit_candidates a b n k) of
        [] \<Rightarrow> shortest_digits x a b n (Suc k) fuel
      | c # _ \<Rightarrow> c)"

definition format_digits :: "string \<Rightarrow> int \<Rightarrow> string" where
  "format_digits ds n =
     (let k = int (length ds) in
      if - 5 \<le> n \<and> n \<le> 21 then
        (if k \<le> n then ds @ replicate (nat (n - k)) CHR ''0''
         else if 0 < n then take (nat n) ds @ ''.'' @ drop (nat n) ds
         else ''0.'' @ replicate (nat (- n)) CHR ''0'' @ ds)
      else
        (let ex = (if 0 \<le> n - 1 then ''+'' else ''-'') @ decimal \<bar>n - 1\<bar>
         in if k = 1 then ds @ ''e'' @ ex
            else take 1 ds @ ''.'' @ drop 1 ds @ ''e'' @ ex))"

definition positive_toString :: "int \<Rightarrow> int \<Rightarrow> string" where
  "positive_toString m e =
     (let a = (if 0 \<le> e then m * 2 ^ nat e else m);
          b = (if 0 \<le> e then 1 else 2 ^ nat (- e))
      in if b = 1 \<and> a \<le> 2 ^ 53 then decimal a
         else case shortest_digits (Fin m e) a b (decimal_position a b) 1 17 of
                (s, n) \<Rightarrow> format_digits (decimal s) n)"

fun numberToString :: "jsnum \<Rightarrow> string" where
  "numberToString NaN = ''NaN''"
| "numberToString PosInf = ''Infinity''"
| "numberToString NegInf = ''-Infinity''"
| "numberToString (Fin m e) =
     (if m = 0 then ''0''
      else if m < 0 then ''-'' @ positive_toString (- m) e
      else positive_toString m e)"



subsection \<open>Parsing numbers\<close>

text \<open>
  The exponent part of a \<open>StrDecimalLiteral\<close>: \<open>e\<close> or \<open>E\<close>, an optional sign and at least
  one digit. Where the text does not continue with an exponent part, the literal ends before
  it and the exponent is 0.
\<close>

definition parse_exponent :: "string \<Rightarrow> int" where
  "parse_exponent s =
     (case s of
        [] \<Rightarrow> 0
      | c # r \<Rightarrow>
          if c = CHR ''e'' \<or> c = CHR ''E'' then
            (case r of
               [] \<Rightarrow> 0
             | d # r' \<Rightarrow>
                 if d = CHR ''+'' then digits_val (takeWhile is_digit r')
                 else if d = CHR ''-'' then - digits_val (takeWhile is_digit r')
                 else digits_val (takeWhile is_digit r))
          else 0)"

definition parse_unsigned :: "bool \<Rightarrow> string \<Rightarrow> jsnum" where
  "parse_unsigned negative s =
     (if take 8 s = ''Infinity'' then signed_inf negative
      else
        let ip = takeWhile is_digit s;
            r1 = dropWhile is_digit s;
            dot = (case r1 of [] \<Rightarrow> False | c # _ \<Rightarrow> c = CHR ''.'');
            fp = (if dot then takeWhile is_digit (tl r1) else []);
            r2 = (if dot then dropWhile is_digit (tl r1) else r1)
        in if ip = [] \<and> fp = [] then NaN
           else
             (case scale10 (digits_val (ip @ fp)) 1 (int (length fp) - parse_exponent r2) of
                (a, b) \<Rightarrow> fl_ratio (if negative then - a else a) b))"

definition parseFloat_string :: "string \<Rightarrow> jsnum" where
  "parseFloat_string input =
     (case dropWhile is_space input of
        [] \<Rightarrow> NaN
      | c # r \<Rightarrow>
          if c = CHR ''-'' then parse_unsigned True r
          else if c = CHR ''+'' then parse_unsigned False r
          else parse_unsigned False (c # r))"

text \<open>\<open>parseInt(string, 10)\<close>: leading white space, a sign, then the longest run of digits.\<close>

definition parseInt_digits :: "bool \<Rightarrow> string \<Rightarrow> jsnum" where
  "parseInt_digits negative s =
     (let ds = takeWhile is_digit s
      in if ds = [] then NaN
         else fl_ratio (if negative then - digits_val ds else digits_val ds) 1)"

definition parseInt :: "string \<Rightarrow> jsnum" where
  "parseInt input =
     (case dropWhile is_space input of
        [] \<Rightarrow> NaN
      | c # r \<Rightarrow>
          if c = CHR ''-'' then parseInt_digits True r
          else if c = CHR ''+'' then parseInt_digits False r
          else parseInt_digits False (c # r))"

section \<open>JavaScript values\<close>

datatype jsvalue = JUndefined | JNull | JBool bool | JNumber jsnum | JString string

fun toString :: "jsvalue \<Rightarrow> string" where
  "toString JUndefined = ''undefined''"
| "toString JNull = ''null''"
| "toString (JBool b) = (if b then ''true'' else ''false'')"
| "toString (JNumber x) = numberToString x"
| "toString (JString s) = s"

definition parseFloat :: "jsvalue \<Rightarrow> jsnum" where
  "parseFloat v = parseFloat_string (toString v)"

fun number_truthy :: "jsnum \<Rightarrow> bool" where
  "number_truthy NaN = False"
| "number_truthy (Fin m e) = (m \<noteq> 0)"
| "number_truthy _ = True"

fun truthy :: "jsvalue \<Rightarrow> bool" where
  "truthy JUndefined = False"
| "truthy JNull = False"
| "truthy (JBool b) = b"
| "truthy (JNumber x) = number_truthy x"
| "truthy (JString s) = (s \<noteq> [])"

text \<open>\<open>a || b\<close> on values and on numbers.\<close>

definition js_or :: "jsvalue \<Rightarrow> jsvalue \<Rightarrow> jsvalue" where
  "js_or a b = (if truthy a then a else b)"

definition number_or :: "jsnum \<Rightarrow> jsnum \<Rightarrow> jsnum" where
  "number_or a b = (if number_truthy a then a else b)"

section \<open>Regular expressions\<close>

text \<open>
  The patterns of the program use character classes, concatenation, \<open>?\<close>, \<open>+\<close> and
  \<open>{8,}\<close>; \<open>matches r s\<close> says that the whole of \<open>s\<close> matches \<open>r\<close>, which is what
  \<open>/^r$/.test(s)\<close> returns.
\<close>

datatype regex =
    Nomatch
  | Eps
  | Cls "char \<Rightarrow> bool"
  | Seq regex regex
  | Alt regex regex
  | Star regex

fun nullable :: "regex \<Rightarrow> bool" where
  "nullable Nomatch = False"
| "nullable Eps = True"
| "nullable (Cls P) = False"
| "nullable (Seq r s) = (nullable r \<and> nullable s)"
| "nullable (Alt r s) = (nullable r \<or> nullable s)"
| "nullable (Star r) = True"

fun deriv :: "char \<Rightarrow> regex \<Rightarrow> regex" where
  "deriv c Nomatch = Nomatch"
| "deriv c Eps = Nomatch"
| "deriv c (Cls P) = (if P c then Eps else Nomatch)"
| "deriv c (Seq r s) =
     (if nullable r then Alt (Seq (deriv c r) s) (deriv c s) else Seq (deriv c r) s)"
| "deriv c (Alt r s) = Alt (deriv c r) (deriv c s)"
| "deriv c (Star r) = Seq (deriv c r) (Star r)"

fun matches :: "regex \<Rightarrow> string \<Rightarrow> bool" where
  "matches r [] = nullable r"
| "matches r (c # cs) = matches (deriv c r) cs"

fun lit :: "string \<Rightarrow> regex" where
  "lit [] = Eps"
| "lit (c # cs) = Seq (Cls (\<lambda>x. x = c)) (lit cs)"

definition Plus :: "regex \<Rightarrow> regex" where
  "Plus r = Seq r (Star r)"



text \<open>
  \<open>s.match(/r$/)\<close> for a pattern \<open>r\<close> anchored at the end only: the engine tries the start
  positions from left to right and the match is the rest of the subject from the first
  position where it matches \<open>r\<close> wholly. The result is the text before the match and the
  matched text.
\<close>

fun match_at_end :: "regex \<Rightarrow> string \<Rightarrow> string \<Rightarrow> (string \<times> string) option" where
  "match_at_end r pre [] = (if matches r [] then Some (pre, []) else None)"
| "match_at_end r pre (c # cs) =
     (if matches r (c # cs) then Some (pre, c # cs)
      else match_at_end r (pre @ [c]) cs)"

section \<open>Revision numbering\<close>

text \<open>\<open>/Rev(\d+)$/\<close> and \<open>/Rev\d+$/\<close> without the anchor.\<close>

definition revisionRegex :: regex where
  "revisionRegex = Seq (lit ''Rev'') (Plus (Cls is_digit))"

text \<open>
  Lines 152 to 162 of the revision writer: the next \<open>custom_id\<close>. Group 1 of the match is
  the matched text after \<open>Rev\<close>; the replacement of the only match of \<open>/Rev\d+$/\<close> puts
  \<open>Rev\<close> and the incremented number in its place.
\<close>

definition nextCustomId :: "string \<Rightarrow> string" where
  "nextCustomId currentCustomId =
     (case match_at_end revisionRegex [] currentCustomId of
        Some (pre, matched) \<Rightarrow>
          (let currentRevision = parseInt (drop 3 matched)
           in pre @ ''Rev'' @ numberToString (jsadd currentRevision (Fin 1 0)))
      | None \<Rightarrow> currentCustomId @ '' Rev1'')"


section \<open>Exceptions\<close>

text \<open>
  What the handlers throw or are thrown at: no connection from the pool, an error reported
  by the database, a statement refused because its transaction has failed, the rejection
  of \<open>withTimeout\<close>, a \<open>TypeError\<close> of the language, a failed call of the identity provider.
\<close>

datatype error =
  ConnectionError | DatabaseError | TransactionAborted | TimedOut | TypeError | ClerkError

section \<open>Totals of a revision\<close>

text \<open>
  A line item of the request body; a field the request leaves out is \<open>JUndefined\<close>. An
  element of the list that is no object but a number, a string, a boolean or an array has
  none of the fields and is the item with every field \<open>JUndefined\<close>; an element that is
  \<open>null\<close> is \<open>None\<close>, and destructuring it throws.
\<close>

record product =
  p_section :: jsvalue
  p_type :: jsvalue
  p_quantity :: jsvalue
  p_description :: jsvalue
  p_price :: jsvalue

text \<open>The literal \<open>0.15\<close> and the literal \<open>0\<close>.\<close>

definition vat_rate :: jsnum where
  "vat_rate = Fin 5404319552844595 (- 55)"

definition zero :: jsnum where
  "zero = Fin 0 0"

text \<open>\<open>parseFloat(x) || 0\<close>\<close>

definition numeric :: "jsvalue \<Rightarrow> jsnum" where
  "numeric v = number_or (parseFloat v) zero"

definition totalPriceForProduct :: "product \<Rightarrow> jsnum" where
  "totalPriceForProduct p = jsmul (numeric (p_price p)) (numeric (p_quantity p))"

definition vat_of :: "product \<Rightarrow> jsnum" where
  "vat_of p = jsmul (totalPriceForProduct p) vat_rate"

definition subtotal_of :: "product \<Rightarrow> jsnum" where
  "subtotal_of p = jsadd (totalPriceForProduct p) (vat_of p)"

record totals =
  totalPrice :: jsnum
  totalVat :: jsnum
  totalSubtotal :: jsnum

text \<open>
  One turn of the loop of lines 173 to 185, the loop, and lines 168 to 186. The field
  \<open>products\<close> is \<open>None\<close> when the body has none (or a value that is no list and fails
  the test \<open>products && products.length > 0\<close>), else the list.
\<close>

definition add_product :: "totals \<Rightarrow> product \<Rightarrow> totals" where
  "add_product t p =
     \<lparr> totalPrice = jsadd (totalPrice t) (totalPriceForProduct p),
       totalVat = jsadd (totalVat t) (vat_of p),
       totalSubtotal = jsadd (totalSubtotal t) (subtotal_of p) \<rparr>"

fun sum_products :: "totals \<Rightarrow> product option list \<Rightarrow> error + totals" where
  "sum_products t [] = Inr t"
| "sum_products t (None # ps) = Inl TypeError"
| "sum_products t (Some p # ps) = sum_products (add_product t p) ps"

definition calcTotals :: "product option list option \<Rightarrow> error + totals" where
  "calcTotals products =
     (let start = \<lparr> totalPrice = zero, totalVat = zero, totalSubtotal = zero \<rparr>
      in case products of
           None \<Rightarrow> Inr start
         | Some ps \<Rightarrow> if 0 < length ps then sum_products start ps else Inr start)"

section \<open>The database\<close>

type_synonym ident = string

text \<open>
  A row holds, for each column the handlers write, the parameter value the statement was
  given (node-postgres sends \<open>undefined\<close> as \<open>NULL\<close>); \<open>JNull\<close> is SQL \<open>NULL\<close>.
\<close>

record quotation =
  custom_id :: "string option"
  client_id :: jsvalue
  delivery_date :: jsvalue
  delivery_type :: jsvalue
  notes_text :: jsvalue
  status :: jsvalue
  storekeeperaccept :: string
  supervisoraccept :: string
  manageraccept :: string
  updated_at :: string
  actual_delivery_date :: jsvalue
  storekeeper_notes :: jsvalue
  total_price :: jsnum
  total_vat :: jsnum
  total_subtotal :: jsnum
  exported :: bool
  sales_rep_id :: jsvalue
  supervisor_id :: jsvalue

record product_row =
  quotation_id :: ident
  description :: jsvalue
  quantity :: jsvalue
  price :: jsvalue
  vat :: jsnum
  subtotal :: jsnum

record client_row =
  company_name :: jsvalue
  client_name :: jsvalue
  phone_number :: jsvalue
  tax_number :: jsvalue
  branch_number :: jsvalue
  latitude :: jsvalue
  longitude :: jsvalue
  street :: jsvalue
  city :: jsvalue
  region :: jsvalue

record person_row =
  name :: jsvalue
  email :: jsvalue
  phone :: jsvalue

record driver_row =
  driver_name :: jsvalue
  driver_email :: jsvalue
  driver_phone :: jsvalue
  clerk_id :: jsvalue
  driver_role :: jsvalue

record database =
  quotations :: "ident \<rightharpoonup> quotation"
  quotation_products :: "product_row list"
  clients :: "jsvalue \<rightharpoonup> client_row"
  supervisors :: "jsvalue \<rightharpoonup> person_row"
  salesreps :: "jsvalue \<rightharpoonup> person_row"
  drivers :: "driver_row list"

text \<open>A comparison with \<open>NULL\<close> selects no row.\<close>

definition by_key :: "(jsvalue \<rightharpoonup> 'r) \<Rightarrow> jsvalue \<Rightarrow> 'r option" where
  "by_key table k = (if k = JNull \<or> k = JUndefined then None else table k)"

definition pg_param :: "jsvalue \<Rightarrow> jsvalue" where
  "pg_param v = (if v = JUndefined then JNull else v)"

definition coalesce :: "jsvalue \<Rightarrow> jsvalue \<Rightarrow> jsvalue" where
  "coalesce a b = (if a = JNull then b else a)"

subsection \<open>The statements\<close>

text \<open>The header read of the aggregate reader: quotation, its client, the supervisor's name.\<close>

record header_row =
  h_quotation :: quotation
  h_client :: client_row
  supervisor_name :: jsvalue

definition select_header :: "ident \<Rightarrow> database \<Rightarrow> header_row list" where
  "select_header qid d =
     (case quotations d qid of
        None \<Rightarrow> []
      | Some q \<Rightarrow>
          (case by_key (clients d) (client_id q) of
             None \<Rightarrow> []
           | Some c \<Rightarrow>
               [\<lparr> h_quotation = q, h_client = c,
                  supervisor_name =
                    (case by_key (supervisors d) (supervisor_id q) of
                       None \<Rightarrow> JNull
                     | Some s \<Rightarrow> name s) \<rparr>]))"

definition select_products :: "ident \<Rightarrow> database \<Rightarrow> product_row list" where
  "select_products qid d = filter (\<lambda>r. quotation_id r = qid) (quotation_products d)"

definition select_salesrep :: "jsvalue \<Rightarrow> database \<Rightarrow> person_row list" where
  "select_salesrep k d = (case by_key (salesreps d) k of None \<Rightarrow> [] | Some r \<Rightarrow> [r])"

definition select_custom_id :: "ident \<Rightarrow> database \<Rightarrow> string option list" where
  "select_custom_id qid d = (case quotations d qid of None \<Rightarrow> [] | Some q \<Rightarrow> [custom_id q])"

text \<open>The parameters \<open>$1\<close> to \<open>$11\<close> of \<open>updateQuotationQuery\<close>, and the statement.\<close>

record update_params =
  u_client_id :: jsvalue
  u_delivery_date :: jsvalue
  u_delivery_type :: jsvalue
  u_notes :: jsvalue
  u_status :: jsvalue
  u_actual_delivery_date :: jsvalue
  u_storekeeper_notes :: jsvalue
  u_total_price :: jsnum
  u_total_vat :: jsnum
  u_total_subtotal :: jsnum
  u_custom_id :: string

definition updated_row :: "update_params \<Rightarrow> string \<Rightarrow> quotation \<Rightarrow> quotation" where
  "updated_row u current_timestamp q =
     q \<lparr> client_id := pg_param (u_client_id u),
         delivery_date := pg_param (u_delivery_date u),
         delivery_type := pg_param (u_delivery_type u),
         notes_text := pg_param (u_notes u),
         status := pg_param (u_status u),
         storekeeperaccept := ''pending'',
         supervisoraccept := ''pending'',
         manageraccept := ''pending'',
         updated_at := current_timestamp,
         actual_delivery_date :=
           coalesce (pg_param (u_actual_delivery_date u)) (actual_delivery_date q),
         storekeeper_notes := pg_param (u_storekeeper_notes u),
         total_price := u_total_price u,
         total_vat := u_total_vat u,
         total_subtotal := u_total_subtotal u,
         custom_id := Some (u_custom_id u) \<rparr>"

definition update_quotation :: "ident \<Rightarrow> update_params \<Rightarrow> string \<Rightarrow> database \<Rightarrow> database" where
  "update_quotation qid u current_timestamp d =
     (case quotations d qid of
        None \<Rightarrow> d
      | Some q \<Rightarrow> d \<lparr> quotations := (quotations d)(qid \<mapsto> updated_row u current_timestamp q) \<rparr>)"

definition delete_products :: "ident \<Rightarrow> database \<Rightarrow> database" where
  "delete_products qid d =
     d \<lparr> quotation_products := filter (\<lambda>r. quotation_id r \<noteq> qid) (quotation_products d) \<rparr>"

definition insert_product :: "product_row \<Rightarrow> database \<Rightarrow> database" where
  "insert_product r d = d \<lparr> quotation_products := quotation_products d @ [r] \<rparr>"

text \<open>\<open>UPDATE quotations SET exported = 'TRUE', updated_at = CURRENT_TIMESTAMP WHERE id = $1
  RETURNING id, exported\<close>: the returned rows and the new contents.\<close>

definition mark_exported :: "ident \<Rightarrow> string \<Rightarrow> database \<Rightarrow> (ident \<times> bool) list \<times> database" where
  "mark_exported qid current_timestamp d =
     (case quotations d qid of
        None \<Rightarrow> ([], d)
      | Some q \<Rightarrow>
          ([(qid, True)],
           d \<lparr> quotations :=
                 (quotations d)(qid \<mapsto> q \<lparr> exported := True, updated_at := current_timestamp \<rparr>) \<rparr>))"

text \<open>\<open>DELETE FROM quotations WHERE id = $1\<close>: the row count and the new contents.\<close>

definition delete_quotation :: "ident \<Rightarrow> database \<Rightarrow> nat \<times> database" where
  "delete_quotation qid d =
     (case quotations d qid of
        None \<Rightarrow> (0, d)
      | Some q \<Rightarrow> (1, d \<lparr> quotations := (quotations d)(qid := None) \<rparr>))"




section \<open>Connections, failures and retries\<close>

text \<open>
  A handler runs against a world: the contents of the database as its connection sees them,
  the contents at \<open>BEGIN\<close> while a transaction is open (what every other connection still
  reads), whether the open transaction is in the failed state, and what the environment
  supplies: whether the pool hands out a connection at all (\<open>pool_down\<close>), how the coming
  statements fare (\<open>faults\<close>), the two clocks, the replies of the identity provider and the
  generated password. \<open>log\<close> and \<open>clerk_calls\<close> record the statements issued and the
  requests sent to the identity provider.

  A statement either is answered with an error (\<open>Fails\<close>): then it changes no row, and
  inside a transaction it leaves the transaction in the failed state, where every statement
  but \<open>ROLLBACK\<close> and \<open>COMMIT\<close> is refused; or it runs and is answered after so many
  milliseconds (\<open>Answers\<close>). When the list of \<open>faults\<close> is used up every statement is
  answered at once. \<open>elapsed\<close> is the time the last statement took. The statements a handler
  sends run in the order in which it sends them; a statement has run when the next one is
  sent, whether or not the caller waited for its answer.
\<close>

datatype outcome = Fails | Answers int

datatype statement =
    Begin
  | Commit
  | Rollback
  | SelectCustomId ident
  | UpdateQuotation ident
  | DeleteProducts ident
  | InsertProduct ident
  | SelectHeader ident
  | SelectProducts ident
  | SelectSalesRep jsvalue
  | UpdateExported ident
  | DeleteQuotation ident
  | SelectDriver jsvalue
  | InsertDriver jsvalue

record clerk_request =
  email_address :: jsvalue
  password :: string
  first_name :: jsvalue
  role :: jsvalue

datatype clerk_reply = Unreachable | Refused | Created string

record world =
  pool_down :: bool
  db :: database
  snapshot :: "database option"
  aborted :: bool
  faults :: "outcome list"
  elapsed :: int
  log :: "statement list"
  current_timestamp :: string
  now_iso :: string
  clerk_replies :: "clerk_reply list"
  clerk_calls :: "clerk_request list"
  generated_password :: string

type_synonym 'a action = "world \<Rightarrow> (error + 'a) \<times> world"

definition ret :: "'a \<Rightarrow> 'a action" where
  "ret x w = (Inr x, w)"

definition throw :: "error \<Rightarrow> 'a action" where
  "throw e w = (Inl e, w)"

definition and_then :: "'a action \<Rightarrow> ('a \<Rightarrow> 'b action) \<Rightarrow> 'b action" where
  "and_then m f w = (case m w of (Inl e, w1) \<Rightarrow> (Inl e, w1) | (Inr x, w1) \<Rightarrow> f x w1)"

text \<open>\<open>await pool.connect()\<close>: it throws when the pool cannot hand out a connection.\<close>

definition connect :: "unit action" where
  "connect w = (if pool_down w then (Inl ConnectionError, w) else (Inr (), w))"

text \<open>What the other connections read: the contents as of the last commit.\<close>

definition committed :: "world \<Rightarrow> database" where
  "committed w = (case snapshot w of None \<Rightarrow> db w | Some d \<Rightarrow> d)"

definition duration :: "outcome \<Rightarrow> int" where
  "duration f = (case f of Fails \<Rightarrow> 0 | Answers t \<Rightarrow> t)"

definition issue :: "statement \<Rightarrow> world \<Rightarrow> outcome \<times> world" where
  "issue st w =
     (case faults w of
        [] \<Rightarrow> (Answers 0, w \<lparr> log := log w @ [st], elapsed := 0 \<rparr>)
      | f # fs \<Rightarrow> (f, w \<lparr> log := log w @ [st], faults := fs, elapsed := duration f \<rparr>))"

definition failed_state :: "world \<Rightarrow> world" where
  "failed_state w = w \<lparr> aborted := (aborted w \<or> snapshot w \<noteq> None) \<rparr>"

definition rolled_back :: "world \<Rightarrow> world" where
  "rolled_back w = w \<lparr> db := committed w, snapshot := None, aborted := False \<rparr>"

definition query :: "statement \<Rightarrow> (database \<Rightarrow> 'a \<times> database) \<Rightarrow> 'a action" where
  "query st run w =
     (case issue st w of
        (Fails, w1) \<Rightarrow> (Inl DatabaseError, failed_state w1)
      | (Answers t, w1) \<Rightarrow>
          if aborted w1 then (Inl TransactionAborted, w1)
          else (case run (db w1) of (r, d) \<Rightarrow> (Inr r, w1 \<lparr> db := d \<rparr>)))"

text \<open>\<open>BEGIN\<close> inside an open transaction is a warning and changes nothing.\<close>

definition begin_transaction :: "unit action" where
  "begin_transaction w =
     (case issue Begin w of
        (Fails, w1) \<Rightarrow> (Inl DatabaseError, failed_state w1)
      | (Answers t, w1) \<Rightarrow>
          if aborted w1 then (Inl TransactionAborted, w1)
          else (Inr (), if snapshot w1 = None then w1 \<lparr> snapshot := Some (db w1) \<rparr> else w1))"

text \<open>
  \<open>COMMIT\<close> ends the transaction in every case: a \<open>COMMIT\<close> that is answered with an error
  and the \<open>COMMIT\<close> of a transaction in the failed state leave the contents of before the
  transaction. The handlers await \<open>BEGIN\<close>, \<open>COMMIT\<close> and \<open>ROLLBACK\<close> without a
  time-out, so the time these take plays no part.
\<close>

definition commit_transaction :: "unit action" where
  "commit_transaction w =
     (case issue Commit w of
        (Fails, w1) \<Rightarrow> (Inl DatabaseError, rolled_back w1)
      | (Answers t, w1) \<Rightarrow>
          if aborted w1 then (Inr (), rolled_back w1)
          else (Inr (), w1 \<lparr> snapshot := None \<rparr>))"

definition rollback_transaction :: "unit action" where
  "rollback_transaction w =
     (case issue Rollback w of
        (Fails, w1) \<Rightarrow> (Inl DatabaseError, failed_state w1)
      | (Answers t, w1) \<Rightarrow> (Inr (), rolled_back w1))"

text \<open>
  \<open>executeWithRetry(fn, retries)\<close>: run \<open>fn\<close>; when it throws and retries are left, wait
  and run it again with one retry fewer. The wait has no effect on the world.
\<close>

fun executeWithRetry :: "'a action \<Rightarrow> nat \<Rightarrow> 'a action" where
  "executeWithRetry fn 0 w = fn w"
| "executeWithRetry fn (Suc retries) w =
     (case fn w of
        (Inl e, w1) \<Rightarrow> executeWithRetry fn retries w1
      | (Inr r, w1) \<Rightarrow> (Inr r, w1))"

text \<open>
  \<open>withTimeout(promise, timeout)\<close>: the statement of \<open>promise\<close> has been sent; the caller
  gets its answer if that comes before \<open>timeout\<close> milliseconds have passed, and the
  rejection of the timer otherwise. The statement is not cancelled: what it did to the
  database stays done.
\<close>

definition withTimeout :: "'a action \<Rightarrow> int \<Rightarrow> 'a action" where
  "withTimeout promise timeout w =
     (case promise w of
        (r, w1) \<Rightarrow> if elapsed w1 < timeout then (r, w1) else (Inl TimedOut, w1))"

section \<open>Responses\<close>

datatype body =
    ErrorBody string
  | OrderData header_row "product_row list" "person_row option"
  | Revised string
  | Exported "ident \<times> bool"
  | Message string
  | Registered driver_row

datatype response = Response nat body

section \<open>The aggregate reader: GET /quotations/:id\<close>

definition get_quotation :: "ident \<Rightarrow> response action" where
  "get_quotation qid w =
     (if qid = [] then (Inr (Response 400 (ErrorBody ''Missing quotation ID'')), w)
      else
        case executeWithRetry
               (withTimeout (query (SelectHeader qid) (\<lambda>d. (select_header qid d, d))) 10000) 3 w of
          (Inl e, w1) \<Rightarrow> (Inr (Response 500 (ErrorBody ''Internal Server Error'')), w1)
        | (Inr [], w1) \<Rightarrow> (Inr (Response 404 (ErrorBody ''Quotation not found'')), w1)
        | (Inr (row # _), w1) \<Rightarrow>
            (case executeWithRetry
                    (withTimeout (query (SelectProducts qid) (\<lambda>d. (select_products qid d, d)))
                       10000) 3 w1 of
               (Inl e, w2) \<Rightarrow> (Inr (Response 500 (ErrorBody ''Internal Server Error'')), w2)
             | (Inr products, w2) \<Rightarrow>
                 (case executeWithRetry
                         (withTimeout
                            (query (SelectSalesRep (sales_rep_id (h_quotation row)))
                               (\<lambda>d. (select_salesrep (sales_rep_id (h_quotation row)) d, d)))
                            10000) 3 w2 of
                    (Inl e, w3) \<Rightarrow> (Inr (Response 500 (ErrorBody ''Internal Server Error'')), w3)
                  | (Inr reps, w3) \<Rightarrow>
                      (Inr (Response 200
                              (OrderData row products
                                 (case reps of [] \<Rightarrow> None | rep # _ \<Rightarrow> Some rep))), w3))))"

section \<open>The revision writer: PUT /quotations/:id\<close>

record put_body =
  b_client_id :: jsvalue
  b_delivery_date :: jsvalue
  b_delivery_type :: jsvalue
  b_notes :: jsvalue
  b_storekeeper_notes :: jsvalue
  b_products :: "product option list option"
  b_status :: jsvalue

text \<open>\<open>status = 'not Delivered'\<close> in the destructuring: the default of a missing field.\<close>

definition status_of :: "put_body \<Rightarrow> jsvalue" where
  "status_of body = (if b_status body = JUndefined then JString ''not Delivered'' else b_status body)"

definition actualDeliveryDate :: "jsvalue \<Rightarrow> string \<Rightarrow> jsvalue" where
  "actualDeliveryDate st now = (if st = JString ''delivered'' then JString now else JNull)"

text \<open>The parameters of lines 211 to 222.\<close>

definition revision_params :: "put_body \<Rightarrow> string \<Rightarrow> string \<Rightarrow> totals \<Rightarrow> update_params" where
  "revision_params body now newCustomId t =
     \<lparr> u_client_id = b_client_id body,
       u_delivery_date = b_delivery_date body,
       u_delivery_type = b_delivery_type body,
       u_notes = js_or (b_notes body) JNull,
       u_status = status_of body,
       u_actual_delivery_date = actualDeliveryDate (status_of body) now,
       u_storekeeper_notes = js_or (b_storekeeper_notes body) JNull,
       u_total_price = totalPrice t,
       u_total_vat = totalVat t,
       u_total_subtotal = totalSubtotal t,
       u_custom_id = newCustomId \<rparr>"

definition inserted_row :: "ident \<Rightarrow> product \<Rightarrow> product_row" where
  "inserted_row qid p =
     \<lparr> quotation_id = qid,
       description = pg_param (p_description p),
       quantity = pg_param (p_quantity p),
       price = pg_param (p_price p),
       vat = vat_of p,
       subtotal = subtotal_of p \<rparr>"

fun insert_products :: "ident \<Rightarrow> product option list \<Rightarrow> unit action" where
  "insert_products qid [] = ret ()"
| "insert_products qid (None # ps) = throw TypeError"
| "insert_products qid (Some p # ps) =
     and_then
       (executeWithRetry
          (withTimeout
             (query (InsertProduct qid) (\<lambda>d. ((), insert_product (inserted_row qid p) d)))
             10000) 3)
       (\<lambda>_. insert_products qid ps)"

definition replace_products :: "ident \<Rightarrow> product option list option \<Rightarrow> unit action" where
  "replace_products qid products =
     (case products of
        None \<Rightarrow> ret ()
      | Some ps \<Rightarrow>
          if 0 < length ps then
            and_then
              (executeWithRetry
                 (withTimeout (query (DeleteProducts qid) (\<lambda>d. ((), delete_products qid d)))
                    10000) 3)
              (\<lambda>_. insert_products qid ps)
          else ret ())"

text \<open>
  Lines 152 to 264: with the current \<open>custom_id\<close> read, derive the next one, compute the
  totals (a \<open>null\<close> line item throws here, before any row is written), update the header,
  replace the line items, commit and answer.
\<close>

definition write_revision :: "ident \<Rightarrow> put_body \<Rightarrow> string \<Rightarrow> response action" where
  "write_revision qid body currentCustomId w =
     (let newCustomId = nextCustomId currentCustomId
      in case calcTotals (b_products body) of
           Inl e \<Rightarrow> throw e w
         | Inr t \<Rightarrow>
             and_then
               (executeWithRetry
                  (withTimeout
                     (query (UpdateQuotation qid)
                        (\<lambda>d. ((), update_quotation qid
                                    (revision_params body (now_iso w) newCustomId t)
                                    (current_timestamp w) d)))
                     10000) 3)
               (\<lambda>_.
                  and_then (replace_products qid (b_products body)) (\<lambda>_.
                  and_then commit_transaction (\<lambda>_.
                  ret (Response 200 (Revised newCustomId))))) w)"

text \<open>
  The function handed to the outer \<open>executeWithRetry\<close> (lines 129 to 265). A \<open>custom_id\<close>
  that is \<open>NULL\<close> makes \<open>currentCustomId.match\<close> throw.
\<close>

definition revision_attempt :: "ident \<Rightarrow> put_body \<Rightarrow> response action" where
  "revision_attempt qid body =
     and_then begin_transaction (\<lambda>_.
     and_then
       (executeWithRetry
          (withTimeout (query (SelectCustomId qid) (\<lambda>d. (select_custom_id qid d, d))) 10000) 3)
       (\<lambda>rows.
          case rows of
            [] \<Rightarrow>
              and_then rollback_transaction
                (\<lambda>_. ret (Response 404 (ErrorBody ''Quotation not found'')))
          | None # _ \<Rightarrow> throw TypeError
          | Some currentCustomId # _ \<Rightarrow> write_revision qid body currentCustomId))"

text \<open>
  The handler: a connection from the pool (outside the \<open>try\<close>, so a failure leaves the
  handler by an exception), then the attempt under the retry wrapper; when it throws for
  good, \<open>ROLLBACK\<close> and the internal error. A \<open>ROLLBACK\<close> that fails there leaves the
  handler by an exception as well.
\<close>

definition put_quotation :: "ident \<Rightarrow> put_body \<Rightarrow> response action" where
  "put_quotation qid body w =
     (if qid = [] then (Inr (Response 400 (ErrorBody ''Missing quotation ID'')), w)
      else
        case connect w of
          (Inl e, w0) \<Rightarrow> (Inl e, w0)
        | (Inr _, w0) \<Rightarrow>
            (case executeWithRetry (revision_attempt qid body) 3 w0 of
               (Inr r, w1) \<Rightarrow> (Inr r, w1)
             | (Inl e, w1) \<Rightarrow>
                 (case rollback_transaction w1 of
                    (Inl e', w2) \<Rightarrow> (Inl e', w2)
                  | (Inr _, w2) \<Rightarrow>
                      (Inr (Response 500 (ErrorBody ''Internal Server Error'')), w2))))"

section \<open>The export marker: PUT /quotations/:id/export\<close>

definition export_quotation :: "ident \<Rightarrow> response action" where
  "export_quotation qid w =
     (if qid = [] then (Inr (Response 400 (ErrorBody ''Missing quotation ID'')), w)
      else
        case connect w of
          (Inl e, w0) \<Rightarrow> (Inl e, w0)
        | (Inr _, w0) \<Rightarrow>
            (case executeWithRetry
                    (withTimeout
                       (query (UpdateExported qid) (mark_exported qid (current_timestamp w0)))
                       10000)
                    3 w0 of
               (Inl e, w1) \<Rightarrow> (Inr (Response 500 (ErrorBody ''Internal Server Error'')), w1)
             | (Inr [], w1) \<Rightarrow> (Inr (Response 404 (ErrorBody ''Quotation not found'')), w1)
             | (Inr (row # _), w1) \<Rightarrow> (Inr (Response 200 (Exported row)), w1)))"

section \<open>The deleter: DELETE /quotations/:id\<close>

text \<open>
  The two functions handed to \<open>executeWithRetry\<close> (lines 335 to 337 and 340 to 342), and
  the handler.
\<close>

definition deleteProducts :: "ident \<Rightarrow> unit action" where
  "deleteProducts qid =
     withTimeout (query (DeleteProducts qid) (\<lambda>d. ((), delete_products qid d))) 10000"

definition deleteOrder :: "ident \<Rightarrow> nat action" where
  "deleteOrder qid = withTimeout (query (DeleteQuotation qid) (delete_quotation qid)) 10000"

definition delete_handler :: "ident \<Rightarrow> response action" where
  "delete_handler qid w =
     (if qid = [] then (Inr (Response 400 (ErrorBody ''Missing quotation ID'')), w)
      else
        case executeWithRetry (deleteProducts qid) 3 w of
          (Inl e, w1) \<Rightarrow> (Inr (Response 500 (ErrorBody ''Internal Server Error'')), w1)
        | (Inr _, w1) \<Rightarrow>
            (case executeWithRetry (deleteOrder qid) 3 w1 of
               (Inl e, w2) \<Rightarrow> (Inr (Response 500 (ErrorBody ''Internal Server Error'')), w2)
             | (Inr rowCount, w2) \<Rightarrow>
                 if rowCount = 0 then (Inr (Response 404 (ErrorBody ''Quotations not found'')), w2)
                 else
                   (Inr (Response 200
                           (Message ''Quotation and associated products deleted successfully'')),
                    w2)))"

section \<open>Account provisioning: POST /drivers\<close>







text \<open>\<open>regex.test(v)\<close> converts its argument to a string.\<close>

definition test :: "regex \<Rightarrow> jsvalue \<Rightarrow> bool" where
  "test r v = matches r (toString v)"






section \<open>What the handlers are expected to leave behind\<close>

definition succeeded :: "error + response \<Rightarrow> bool" where
  "succeeded r = (case r of Inr (Response code _) \<Rightarrow> code = 200 | Inl _ \<Rightarrow> False)"

definition status_code :: "error + response \<Rightarrow> nat option" where
  "status_code r = (case r of Inr (Response code _) \<Rightarrow> Some code | Inl _ \<Rightarrow> None)"

text \<open>No transaction is open on the connection the handler is given.\<close>

definition idle :: "world \<Rightarrow> bool" where
  "idle w = (snapshot w = None \<and> \<not> aborted w)"

text \<open>
  A statement that is answered within the ten seconds every data operation is given; none
  of the first \<open>n\<close> statements issued from now on is; no statement is answered late.
\<close>

definition in_time :: "outcome \<Rightarrow> bool" where
  "in_time f = (case f of Fails \<Rightarrow> False | Answers t \<Rightarrow> t < 10000)"

definition all_fail :: "nat \<Rightarrow> world \<Rightarrow> bool" where
  "all_fail n w = (n \<le> length (faults w) \<and> list_all (\<lambda>f. \<not> in_time f) (take n (faults w)))"

definition punctual :: "world \<Rightarrow> bool" where
  "punctual w = list_all (\<lambda>f. f = Fails \<or> in_time f) (faults w)"

text \<open>How the statement issued next fares.\<close>

definition upcoming :: "world \<Rightarrow> outcome" where
  "upcoming w = (case faults w of [] \<Rightarrow> Answers 0 | f # fs \<Rightarrow> f)"

text \<open>The world in which that attempt of \<open>executeWithRetry\<close> starts which settles the call.\<close>

fun last_attempt :: "'a action \<Rightarrow> nat \<Rightarrow> world \<Rightarrow> world" where
  "last_attempt fn 0 w = w"
| "last_attempt fn (Suc retries) w =
     (case fn w of
        (Inl e, w1) \<Rightarrow> last_attempt fn retries w1
      | (Inr r, w1) \<Rightarrow> w)"

text \<open>The contents on which the header delete runs whose answer the deleter goes by.\<close>

definition header_delete_on :: "ident \<Rightarrow> world \<Rightarrow> database" where
  "header_delete_on qid w =
     db (last_attempt (deleteOrder qid) 3 (snd (executeWithRetry (deleteProducts qid) 3 w)))"

text \<open>
  The header row of a quotation after the header update of the \<open>i\<close>-th attempt of a
  request has run: every attempt reads the \<open>custom_id\<close> the one before has written.
\<close>

definition draft :: "put_body \<Rightarrow> world \<Rightarrow> totals \<Rightarrow> string \<Rightarrow> quotation \<Rightarrow> nat \<Rightarrow> quotation" where
  "draft body w t cid q i =
     (if i = 0 then q
      else updated_row (revision_params body (now_iso w) ((nextCustomId ^^ i) cid) t)
             (current_timestamp w) q)"

definition drafted :: "ident \<Rightarrow> put_body \<Rightarrow> world \<Rightarrow> nat \<Rightarrow> product_row list \<Rightarrow> database" where
  "drafted qid body w i rows =
     (case quotations (db w) qid of
        None \<Rightarrow> db w
      | Some q \<Rightarrow>
          (case custom_id q of
             None \<Rightarrow> db w
           | Some cid \<Rightarrow>
               (case calcTotals (b_products body) of
                  Inl e \<Rightarrow> db w
                | Inr t \<Rightarrow>
                    (db w) \<lparr> quotations := (quotations (db w))(qid \<mapsto> draft body w t cid q i),
                            quotation_products := rows \<rparr>)))"

text \<open>
  The rows of the line items when the insert of each has run once and, after time-outs,
  so many times more; the line items of all quotations after a revision.
\<close>

fun copies :: "ident \<Rightarrow> product option list \<Rightarrow> nat list \<Rightarrow> product_row list" where
  "copies qid (Some p # ps) (m # ms) = replicate (Suc m) (inserted_row qid p) @ copies qid ps ms"
| "copies qid ps ms = []"

definition items_after :: "ident \<Rightarrow> put_body \<Rightarrow> database \<Rightarrow> nat list \<Rightarrow> product_row list" where
  "items_after qid body d ms =
     (case b_products body of
        None \<Rightarrow> quotation_products d
      | Some ps \<Rightarrow>
          if 0 < length ps
          then filter (\<lambda>r. quotation_id r \<noteq> qid) (quotation_products d) @ copies qid ps ms
          else quotation_products d)"

definition item_count :: "put_body \<Rightarrow> nat" where
  "item_count body = (case b_products body of None \<Rightarrow> 0 | Some ps \<Rightarrow> length ps)"

text \<open>
  The contents a revision leaves that is committed after \<open>k\<close> attempts were given up with
  their header update done, and in which the insert of the \<open>n\<close>-th item has run \<open>ms ! n\<close>
  times more than once. With \<open>k = 0\<close> and no repeated insert these are the contents one
  revision leaves.
\<close>

definition revision_effect :: "ident \<Rightarrow> put_body \<Rightarrow> world \<Rightarrow> nat \<Rightarrow> nat list \<Rightarrow> database" where
  "revision_effect qid body w k ms =
     drafted qid body w (Suc k) (items_after qid body (db w) ms)"

text \<open>Predicates on pairs of worlds, for the proofs: what a step may change.\<close>

definition same_env :: "world \<Rightarrow> world \<Rightarrow> bool" where
  "same_env w w' =
     (pool_down w' = pool_down w \<and>
      now_iso w' = now_iso w \<and> current_timestamp w' = current_timestamp w \<and>
      clerk_calls w' = clerk_calls w \<and> clerk_replies w' = clerk_replies w \<and>
      generated_password w' = generated_password w)"

text \<open>
  A request that gets as far as writing: the quotation exists, its \<open>custom_id\<close> is not
  \<open>NULL\<close>, no line item is \<open>null\<close>.
\<close>

definition revisable :: "ident \<Rightarrow> put_body \<Rightarrow> world \<Rightarrow> quotation \<Rightarrow> string \<Rightarrow> totals \<Rightarrow> bool" where
  "revisable qid body w q cid t =
     (quotations (db w) qid = Some q \<and> custom_id q = Some cid \<and>
      calcTotals (b_products body) = Inr t)"

text \<open>
  Line items as a transaction of the request may hold them: those of the other quotations
  are the stored ones, and all are when the request brings no item.
\<close>

definition kept :: "ident \<Rightarrow> put_body \<Rightarrow> database \<Rightarrow> product_row list \<Rightarrow> bool" where
  "kept qid body d rows =
     (filter (\<lambda>r. quotation_id r \<noteq> qid) rows =
        filter (\<lambda>r. quotation_id r \<noteq> qid) (quotation_products d) \<and>
      (item_count body = 0 \<longrightarrow> rows = quotation_products d))"

text \<open>
  Inside a transaction of a request that started in the world \<open>w0\<close>: the header is the one
  of \<open>i\<close> attempts, the line items are \<open>rows\<close>.
\<close>

definition inside :: "ident \<Rightarrow> put_body \<Rightarrow> world \<Rightarrow> nat \<Rightarrow> product_row list \<Rightarrow> world \<Rightarrow> bool" where
  "inside qid body w0 i rows w =
     (same_env w0 w \<and> (punctual w0 \<longrightarrow> punctual w) \<and> snapshot w = Some (db w0) \<and>
      \<not> aborted w \<and> db w = drafted qid body w0 i rows \<and> kept qid body (db w0) rows)"

text \<open>
  Between two attempts of a request that started in the world \<open>w0\<close>: nothing is committed;
  the connection has no transaction, or one in the failed state, or one that holds a header
  updated by earlier attempts and line items as above (only after a time-out).
\<close>

definition between :: "ident \<Rightarrow> put_body \<Rightarrow> world \<Rightarrow> world \<Rightarrow> bool" where
  "between qid body w0 w =
     (same_env w0 w \<and> (punctual w0 \<longrightarrow> punctual w) \<and> committed w = db w0 \<and>
      (snapshot w = None \<longrightarrow> \<not> aborted w \<and> db w = db w0) \<and>
      (snapshot w \<noteq> None \<and> \<not> aborted w \<longrightarrow>
         (\<exists>i rows. db w = drafted qid body w0 i rows \<and> kept qid body (db w0) rows \<and>
            (punctual w0 \<longrightarrow> i = 0 \<and> rows = quotation_products (db w0)))))"

text \<open>
  What an attempt that answers leaves: not found and the contents as they were, or a
  revision. A request that throws at every attempt: the \<open>custom_id\<close> is \<open>NULL\<close> or a line
  item is \<open>null\<close>.
\<close>

definition answered :: "ident \<Rightarrow> put_body \<Rightarrow> world \<Rightarrow> response \<Rightarrow> world \<Rightarrow> bool" where
  "answered qid body w0 r w =
     (idle w \<and> same_env w0 w \<and>
      (r = Response 404 (ErrorBody ''Quotation not found'') \<and> quotations (db w0) qid = None \<and>
       db w = db w0 \<or>
       (\<exists>q cid t k ms.
          revisable qid body w0 q cid t \<and>
          r = Response 200 (Revised ((nextCustomId ^^ Suc k) cid)) \<and>
          length ms = item_count body \<and>
          (punctual w0 \<longrightarrow> k = 0 \<and> ms = replicate (item_count body) 0) \<and>
          db w = revision_effect qid body w0 k ms)))"

definition futile :: "ident \<Rightarrow> put_body \<Rightarrow> world \<Rightarrow> bool" where
  "futile qid body w0 =
     (\<exists>q. quotations (db w0) qid = Some q \<and>
        (custom_id q = None \<or> (\<exists>e. calcTotals (b_products body) = Inl e)))"

text \<open>The sum of the stored subtotals of the line items of a quotation.\<close>

definition stored_subtotal :: "ident \<Rightarrow> database \<Rightarrow> jsnum" where
  "stored_subtotal qid d = foldl jsadd zero (map subtotal (select_products qid d))"

section \<open>Example data\<close>

text \<open>
  Quotation 7 of an example database: revision 3, approved by two of the three roles,
  delivered at \<open>d0\<close>, with one line item of 100 at 15 percent.
\<close>

definition example_quotation :: quotation where
  "example_quotation =
     \<lparr> custom_id = Some ''Q-7 Rev3'', client_id = JString ''c1'', delivery_date = JNull,
       delivery_type = JNull, notes_text = JNull, status = JString ''not Delivered'',
       storekeeperaccept = ''accepted'', supervisoraccept = ''accepted'',
       manageraccept = ''rejected'', updated_at = ''t0'',
       actual_delivery_date = JString ''d0'', storekeeper_notes = JNull,
       total_price = Fin 25 2, total_vat = Fin 15 0, total_subtotal = Fin 115 0,
       exported = False, sales_rep_id = JString ''s1'', supervisor_id = JNull \<rparr>"

definition example_client :: client_row where
  "example_client =
     \<lparr> company_name = JString ''ACME'', client_name = JNull, phone_number = JNull,
       tax_number = JNull, branch_number = JNull, latitude = JNull, longitude = JNull,
       street = JNull, city = JNull, region = JNull \<rparr>"

definition example_salesrep :: person_row where
  "example_salesrep =
     \<lparr> name = JString ''Sam'', email = JString ''sam@example.com'', phone = JNull \<rparr>"

definition example_item_row :: product_row where
  "example_item_row =
     \<lparr> quotation_id = ''7'', description = JString ''pump'', quantity = JNumber (Fin 1 0),
       price = JNumber (Fin 25 2), vat = Fin 15 0, subtotal = Fin 115 0 \<rparr>"

definition example_driver :: driver_row where
  "example_driver =
     \<lparr> driver_name = JString ''Dana'', driver_email = JString ''dana@example.com'',
       driver_phone = JString ''+966 55 123 4567'', clerk_id = JString ''user_1'',
       driver_role = JString ''driver'' \<rparr>"

definition example_database :: database where
  "example_database =
     \<lparr> quotations = [''7'' \<mapsto> example_quotation],
       quotation_products = [example_item_row],
       clients = [JString ''c1'' \<mapsto> example_client],
       supervisors = Map.empty,
       salesreps = [JString ''s1'' \<mapsto> example_salesrep],
       drivers = [example_driver] \<rparr>"

definition example_world :: "outcome list \<Rightarrow> world" where
  "example_world fs =
     \<lparr> pool_down = False, db = example_database, snapshot = None, aborted = False,
       faults = fs, elapsed = 0, log = [],
       current_timestamp = ''t1'', now_iso = ''n1'', clerk_replies = [Created ''user_2''],
       clerk_calls = [], generated_password = ''aB3!efgh'' \<rparr>"

definition example_item :: "jsvalue \<Rightarrow> jsvalue \<Rightarrow> product" where
  "example_item p q =
     \<lparr> p_section = JUndefined, p_type = JUndefined, p_quantity = q,
       p_description = JString ''valve'', p_price = p \<rparr>"

definition example_body :: "product option list option \<Rightarrow> jsvalue \<Rightarrow> put_body" where
  "example_body ps st =
     \<lparr> b_client_id = JString ''c1'', b_delivery_date = JUndefined,
       b_delivery_type = JUndefined, b_notes = JUndefined, b_storekeeper_notes = JUndefined,
       b_products = ps, b_status = st \<rparr>"



section \<open>Properties of the revision numbering\<close>

subsection \<open>Matching\<close>

lemma matches_Nomatch: "\<not> matches Nomatch s"
  by (induction s) auto

lemma matches_Alt: "matches (Alt r1 r2) s \<longleftrightarrow> matches r1 s \<or> matches r2 s"
  by (induction s arbitrary: r1 r2) auto

lemma matches_Seq_Nomatch: "\<not> matches (Seq Nomatch r) s"
  by (induction s) auto

lemma matches_Seq_Eps: "matches (Seq Eps r) s \<longleftrightarrow> matches r s"
  by (cases s) (auto simp: matches_Alt matches_Seq_Nomatch)

lemma matches_Seq_Cls:
  "matches (Seq (Cls P) r) s \<longleftrightarrow> (\<exists>c cs. s = c # cs \<and> P c \<and> matches r cs)"
  by (cases s) (auto simp: matches_Seq_Eps matches_Seq_Nomatch)

lemma matches_Star_Cls: "matches (Star (Cls P)) s \<longleftrightarrow> list_all P s"
  by (induction s) (auto simp: matches_Seq_Eps matches_Seq_Nomatch)

lemma matches_Plus_Cls: "matches (Plus (Cls P)) s \<longleftrightarrow> s \<noteq> [] \<and> list_all P s"
  unfolding Plus_def matches_Seq_Cls matches_Star_Cls by (cases s) auto

lemma matches_Seq:
  "matches (Seq r1 r2) s \<longleftrightarrow> (\<exists>u v. s = u @ v \<and> matches r1 u \<and> matches r2 v)"
proof (induction s arbitrary: r1)
  case Nil
  then show ?case by simp
next
  case (Cons c cs)
  have split: "(\<exists>u v. c # cs = u @ v \<and> matches r1 u \<and> matches r2 v) \<longleftrightarrow>
      (nullable r1 \<and> matches r2 (c # cs)) \<or>
      (\<exists>u v. cs = u @ v \<and> matches (deriv c r1) u \<and> matches r2 v)"
    (is "?L \<longleftrightarrow> ?A \<or> ?B")
  proof
    assume ?L
    then obtain u v where uv: "c # cs = u @ v" "matches r1 u" "matches r2 v" by blast
    show "?A \<or> ?B"
    proof (cases u)
      case Nil
      with uv show ?thesis by simp
    next
      case (Cons a u')
      with uv have "cs = u' @ v" "matches (deriv c r1) u'" by simp_all
      with uv(3) show ?thesis by blast
    qed
  next
    assume "?A \<or> ?B"
    then show ?L
    proof
      assume ?A
      then have "c # cs = [] @ (c # cs) \<and> matches r1 [] \<and> matches r2 (c # cs)" by simp
      then show ?L by blast
    next
      assume ?B
      then obtain u v where "cs = u @ v" "matches (deriv c r1) u" "matches r2 v" by blast
      then have "c # cs = (c # u) @ v \<and> matches r1 (c # u) \<and> matches r2 v" by simp
      then show ?L by blast
    qed
  qed
  show ?case
    unfolding split using Cons.IH [of "deriv c r1"]
    by (auto simp: matches_Alt)
qed

lemma matches_lit: "matches (lit w) s \<longleftrightarrow> s = w"
proof (induction w arbitrary: s)
  case Nil
  then show ?case by (cases s) (auto simp: matches_Nomatch)
next
  case (Cons c w)
  then show ?case by (auto simp: matches_Seq_Cls)
qed

lemma matches_revisionRegex:
  "matches revisionRegex s \<longleftrightarrow> (\<exists>ds. s = ''Rev'' @ ds \<and> ds \<noteq> [] \<and> list_all is_digit ds)"
  unfolding revisionRegex_def matches_Seq matches_lit matches_Plus_Cls by auto

lemma digit_not_special:
  "is_digit c \<Longrightarrow> \<not> is_space c \<and> c \<noteq> CHR ''-'' \<and> c \<noteq> CHR ''+'' \<and> c \<noteq> CHR ''R''"
  by (auto simp: is_digit_def is_space_def)

lemma digit_val_range: "is_digit c \<Longrightarrow> 0 \<le> digit_val c \<and> digit_val c \<le> 9"
  by (auto simp: is_digit_def digit_val_def)

lemma no_match_inside:
  assumes "list_all is_digit ds"
  shows "\<not> matches revisionRegex (c # pre @ ''Rev'' @ ds)"
proof
  assume "matches revisionRegex (c # pre @ ''Rev'' @ ds)"
  then obtain ds' where eq: "c # pre @ ''Rev'' @ ds = ''Rev'' @ ds'" and d': "list_all is_digit ds'"
    unfolding matches_revisionRegex by blast
  from eq have "pre @ ''Rev'' @ ds = ''ev'' @ ds'" by simp
  moreover have "CHR ''R'' \<in> set (pre @ ''Rev'' @ ds)" by simp
  ultimately have "CHR ''R'' \<in> set (''ev'' @ ds')" by simp
  then have "CHR ''R'' \<in> set ds'" by simp
  with d' have "is_digit CHR ''R''" by (auto simp: list_all_iff)
  then show False by (simp add: is_digit_def)
qed

lemma match_at_end_found:
  assumes "ds \<noteq> []" "list_all is_digit ds"
  shows "match_at_end revisionRegex acc (pre @ ''Rev'' @ ds) = Some (acc @ pre, ''Rev'' @ ds)"
proof (induction pre arbitrary: acc)
  case Nil
  have "\<exists>ds'. ''Rev'' @ ds = ''Rev'' @ ds' \<and> ds' \<noteq> [] \<and> list_all is_digit ds'"
    using assms by blast
  then have "matches revisionRegex (''Rev'' @ ds)"
    unfolding matches_revisionRegex .
  then have "matches revisionRegex (CHR ''R'' # CHR ''e'' # CHR ''v'' # ds)"
    by (simp del: matches.simps)
  then show ?case by (simp del: matches.simps)
next
  case (Cons c pre)
  have "\<not> matches revisionRegex (c # pre @ ''Rev'' @ ds)"
    using assms(2) by (rule no_match_inside)
  then show ?case using Cons.IH [of "acc @ [c]"] by (simp del: matches.simps)
qed

lemma match_at_end_none:
  assumes "\<forall>pre ds. s = pre @ ''Rev'' @ ds \<longrightarrow> ds = [] \<or> \<not> list_all is_digit ds"
  shows "match_at_end revisionRegex acc s = None"
  using assms
proof (induction s arbitrary: acc)
  case Nil
  then show ?case by (simp add: revisionRegex_def Plus_def)
next
  case (Cons c cs)
  have "\<not> matches revisionRegex (c # cs)"
  proof
    assume "matches revisionRegex (c # cs)"
    then obtain ds where "c # cs = [] @ ''Rev'' @ ds" "ds \<noteq> []" "list_all is_digit ds"
      unfolding matches_revisionRegex by auto
    with Cons.prems show False by blast
  qed
  moreover have "\<forall>pre ds. cs = pre @ ''Rev'' @ ds \<longrightarrow> ds = [] \<or> \<not> list_all is_digit ds"
  proof (intro allI impI)
    fix pre ds assume "cs = pre @ ''Rev'' @ ds"
    then have "c # cs = (c # pre) @ ''Rev'' @ ds" by simp
    with Cons.prems show "ds = [] \<or> \<not> list_all is_digit ds" by blast
  qed
  ultimately show ?case using Cons.IH by (simp del: matches.simps)
qed

subsection \<open>Numbers\<close>

lemma canonical_shift: "m \<noteq> 0 \<Longrightarrow> canonical (m * 2 ^ k) e = canonical m (e + int k)"
proof (induction k arbitrary: e)
  case 0
  then show ?case by simp
next
  case (Suc k)
  have "canonical (m * 2 ^ Suc k) e = canonical (m * 2 ^ k) (e + 1)"
    using Suc.prems by (subst canonical.simps) simp
  also have "\<dots> = canonical m (e + 1 + int k)" using Suc by simp
  finally show ?case by (simp add: add.assoc)
qed

lemma canonical_zero: "canonical 0 e = Fin 0 0"
  by (subst canonical.simps) simp

lemma canonical_Fin: "\<exists>m e. canonical a e0 = Fin m e"
proof (induction a e0 rule: canonical.induct)
  case (1 a e0)
  show ?case
  proof (cases "a \<noteq> 0 \<and> even a")
    case True
    with "1.IH" show ?thesis by (subst canonical.simps) simp
  next
    case False
    then show ?thesis by (subst canonical.simps) auto
  qed
qed

lemma canonical_value:
  "a \<noteq> 0 \<Longrightarrow> canonical a e0 = Fin m e \<Longrightarrow> e0 \<le> e \<and> a = m * 2 ^ nat (e - e0) \<and> odd m"
proof (induction a e0 rule: canonical.induct)
  case (1 a e0)
  show ?case
  proof (cases "even a")
    case True
    with "1.prems" have eq: "canonical (a div 2) (e0 + 1) = Fin m e"
      by (subst (asm) canonical.simps) simp
    from True "1.prems"(1) have nz2: "a div 2 \<noteq> 0" by auto
    from "1.IH" [OF "1.prems"(1) True nz2 eq]
    have ih: "e0 + 1 \<le> e" "a div 2 = m * 2 ^ nat (e - (e0 + 1))" "odd m" by auto
    have "nat (e - e0) = Suc (nat (e - (e0 + 1)))" using ih(1) by simp
    then have "m * 2 ^ nat (e - e0) = 2 * (a div 2)" using ih(2) by simp
    also have "\<dots> = a" using True by simp
    finally show ?thesis using ih by simp
  next
    case False
    with "1.prems" show ?thesis by (subst (asm) canonical.simps) auto
  qed
qed

lemma round_div_one: "round_div n 1 = n"
  by (simp add: round_div_def)

lemma fl_ratio_small:
  assumes "0 < a" "a < 2 ^ 53"
  shows "fl_ratio a 1 = canonical a 0"
proof -
  have b1: "bitlen 1 = 1" by (simp add: bitlen_alt_def)
  from assms(1) have bl: "1 \<le> bitlen a" by (simp add: bitlen_alt_def)
  have bu: "bitlen a \<le> 53" using assms by (simp add: bitlen_le_iff_power)
  have low: "2 ^ nat (bitlen a - 1) \<le> a" using bitlen_bounds [OF assms(1)] by simp
  define k where "k = nat (53 - bitlen a)"
  have e: "max (bitlen a - 1 - 52) (- 1074) = - int k" using bl bu by (simp add: k_def)
  have nz: "a \<noteq> 0" using assms by simp
  have "fl_ratio a 1 = (if 0 \<le> - int k then canonical (round_div a (2 ^ nat (- int k))) (- int k)
       else canonical (round_div (a * 2 ^ nat (int k)) 1) (- int k))"
    unfolding fl_ratio_def Let_def using assms bl low nz e b1
    by (simp add: round_div_one)
  also have "\<dots> = canonical (a * 2 ^ k) (- int k)"
    by (cases "k = 0") (simp_all add: round_div_one)
  also have "\<dots> = canonical a 0" using nz by (simp add: canonical_shift)
  finally show ?thesis .
qed


lemma fl_ratio_pow53: "fl_ratio (2 ^ 53) 1 = canonical (2 ^ 53) 0"
proof -
  have "fl_ratio (2 ^ 53) 1 = Fin 1 53" by code_simp
  moreover have "canonical (2 ^ 53) 0 = Fin 1 53" by code_simp
  ultimately show ?thesis by simp
qed

lemma fl_ratio_exact:
  assumes "0 \<le> a" "a \<le> 2 ^ 53"
  shows "fl_ratio a 1 = canonical a 0"
proof -
  consider "a = 0" | "0 < a" "a < 2 ^ 53" | "a = 2 ^ 53" using assms by force
  then show ?thesis
  proof cases
    case 1
    then show ?thesis by (simp add: fl_ratio_def canonical_zero)
  next
    case 2
    then show ?thesis by (rule fl_ratio_small)
  next
    case 3
    then show ?thesis by (simp only: fl_ratio_pow53)
  qed
qed

lemma jsadd_one:
  assumes "0 \<le> n" "n < 2 ^ 53"
  shows "jsadd (canonical n 0) (Fin 1 0) = canonical (n + 1) 0"
proof (cases "n = 0")
  case True
  have "jsadd (Fin 0 0) (Fin 1 0) = canonical 1 0" by code_simp
  with True show ?thesis by (simp add: canonical_zero)
next
  case False
  obtain m e where me: "canonical n 0 = Fin m e"
    using canonical_Fin by blast
  from canonical_value [OF False me] have v: "0 \<le> e" "n = m * 2 ^ nat e" by auto
  have "jsadd (Fin m e) (Fin 1 0) = fl_ratio (n + 1) 1"
    using v by (simp add: fl_binary_def min_def)
  also have "\<dots> = canonical (n + 1) 0" using assms by (intro fl_ratio_exact) auto
  finally show ?thesis by (simp add: me)
qed


lemma digit_char_is_digit: "0 \<le> d \<Longrightarrow> d < 10 \<Longrightarrow> is_digit (digit_char d)"
  unfolding is_digit_def digit_char_def by (rule nth_mem) simp

lemma decimal_digits: "0 \<le> n \<Longrightarrow> decimal n \<noteq> [] \<and> list_all is_digit (decimal n)"
proof (induction n rule: decimal.induct)
  case (1 n)
  show ?case
  proof (cases "n < 10")
    case True
    with "1.prems" show ?thesis
      by (subst (1 2) decimal.simps) (simp add: digit_char_is_digit)
  next
    case False
    with "1.prems" "1.IH" have "decimal (n div 10) \<noteq> [] \<and> list_all is_digit (decimal (n div 10))"
      by simp
    moreover have "is_digit (digit_char (n mod 10))" by (simp add: digit_char_is_digit)
    ultimately show ?thesis using False by (subst (1 2) decimal.simps) simp
  qed
qed

lemma digits_val_nonneg_aux:
  "list_all is_digit ds \<Longrightarrow> 0 \<le> n \<Longrightarrow> 0 \<le> foldl (\<lambda>n c. 10 * n + digit_val c) n ds"
proof (induction ds arbitrary: n)
  case Nil
  then show ?case by simp
next
  case (Cons c ds)
  from Cons.prems have "0 \<le> 10 * n + digit_val c" using digit_val_range [of c] by simp
  with Cons show ?case by simp
qed

lemma digits_val_nonneg: "list_all is_digit ds \<Longrightarrow> 0 \<le> digits_val ds"
  unfolding digits_val_def by (rule digits_val_nonneg_aux) simp_all

lemma takeWhile_all: "list_all P xs \<Longrightarrow> takeWhile P xs = xs"
  by (induction xs) auto

lemma parseInt_digits_string:
  assumes "ds \<noteq> []" "list_all is_digit ds"
  shows "parseInt ds = fl_ratio (digits_val ds) 1"
proof -
  obtain c r where ds: "ds = c # r" using assms(1) by (cases ds) auto
  with assms(2) have c: "is_digit c" by simp
  from digit_not_special [OF c] have "dropWhile is_space ds = ds" "c \<noteq> CHR ''-''" "c \<noteq> CHR ''+''"
    by (simp_all add: ds)
  then have "parseInt ds = parseInt_digits False ds"
    by (simp add: parseInt_def ds)
  also have "\<dots> = fl_ratio (digits_val ds) 1"
    using assms by (simp add: parseInt_digits_def takeWhile_all)
  finally show ?thesis .
qed

lemma numberToString_small:
  assumes "0 < n" "n \<le> 2 ^ 53"
  shows "numberToString (canonical n 0) = decimal n"
proof -
  obtain m e where me: "canonical n 0 = Fin m e" using canonical_Fin by blast
  from assms have nz: "n \<noteq> 0" by simp
  from canonical_value [OF nz me] have v: "0 \<le> e" "n = m * 2 ^ nat e" by auto
  have "0 < m"
  proof (rule ccontr)
    assume "\<not> 0 < m"
    then have "m * 2 ^ nat e \<le> 0" by (simp add: mult_le_0_iff)
    with v assms show False by simp
  qed
  then have "numberToString (Fin m e) = decimal (m * 2 ^ nat e)"
    using v(1) assms(2) unfolding v(2) by (simp add: positive_toString_def)
  then show ?thesis unfolding me v(2) [symmetric] .
qed

lemma nextCustomId_increment:
  assumes "ds \<noteq> []" "list_all is_digit ds" "digits_val ds < 2 ^ 53"
  shows "nextCustomId (pre @ ''Rev'' @ ds) = pre @ ''Rev'' @ decimal (digits_val ds + 1)"
proof -
  let ?n = "digits_val ds"
  have n0: "0 \<le> ?n" using assms(2) by (rule digits_val_nonneg)
  have m: "match_at_end revisionRegex [] (pre @ ''Rev'' @ ds) = Some (pre, ''Rev'' @ ds)"
    using match_at_end_found [OF assms(1,2), of "[]" pre] by simp
  have "parseInt (drop 3 (''Rev'' @ ds)) = canonical ?n 0"
    using parseInt_digits_string [OF assms(1,2)] fl_ratio_exact [of ?n] n0 assms(3) by simp
  moreover have "jsadd (canonical ?n 0) (Fin 1 0) = canonical (?n + 1) 0"
    using n0 assms(3) by (rule jsadd_one)
  moreover have "numberToString (canonical (?n + 1) 0) = decimal (?n + 1)"
    using n0 assms(3) by (intro numberToString_small) auto
  ultimately show ?thesis
    unfolding nextCustomId_def m by (simp add: Let_def)
qed

lemma nextCustomId_append:
  assumes "\<forall>pre ds. s = pre @ ''Rev'' @ ds \<longrightarrow> ds = [] \<or> \<not> list_all is_digit ds"
  shows "nextCustomId s = s @ '' Rev1''"
  unfolding nextCustomId_def match_at_end_none [OF assms] by simp

text \<open>
  Claim C1, as the code has it. When the stored \<open>custom_id\<close> ends in \<open>Rev\<close> and a digit
  string whose value \<open>N\<close> is below \<open>2 ^ 53\<close>, the next \<open>custom_id\<close> is the stored one with
  that suffix replaced by \<open>Rev\<close> and the decimal digits of \<open>N + 1\<close>, so it ends in \<open>Rev\<close>
  and digits again; when it does not end in \<open>Rev\<close> and digits, the next \<open>custom_id\<close> is the
  stored one followed by \<open>'' Rev1''\<close>.
\<close>

theorem revision_derivation:
  "(ds \<noteq> [] \<and> list_all is_digit ds \<and> digits_val ds < 2 ^ 53 \<longrightarrow>
      nextCustomId (pre @ ''Rev'' @ ds) = pre @ ''Rev'' @ decimal (digits_val ds + 1) \<and>
      decimal (digits_val ds + 1) \<noteq> [] \<and> list_all is_digit (decimal (digits_val ds + 1))) \<and>
   ((\<forall>p d. s = p @ ''Rev'' @ d \<longrightarrow> d = [] \<or> \<not> list_all is_digit d) \<longrightarrow>
      nextCustomId s = s @ '' Rev1'')"
proof (intro conjI impI)
  assume a: "ds \<noteq> [] \<and> list_all is_digit ds \<and> digits_val ds < 2 ^ 53"
  then show "nextCustomId (pre @ ''Rev'' @ ds) = pre @ ''Rev'' @ decimal (digits_val ds + 1)"
    by (intro nextCustomId_increment) auto
  from a have "0 \<le> digits_val ds + 1" using digits_val_nonneg [of ds] by simp
  then show "decimal (digits_val ds + 1) \<noteq> []" "list_all is_digit (decimal (digits_val ds + 1))"
    using decimal_digits by auto
next
  assume "\<forall>p d. s = p @ ''Rev'' @ d \<longrightarrow> d = [] \<or> \<not> list_all is_digit d"
  then show "nextCustomId s = s @ '' Rev1''" by (rule nextCustomId_append)
qed

text \<open>The two examples of the specification: \<open>X Rev3\<close> and \<open>X\<close>.\<close>

theorem revision_derivation_witness:
  "nextCustomId ''X Rev3'' = ''X Rev4'' \<and> nextCustomId ''X'' = ''X Rev1''"
proof -
  have h1: "''3'' \<noteq> [] \<and> list_all is_digit ''3'' \<and> digits_val ''3'' < 2 ^ 53" by code_simp
  have h2: "\<forall>p d. ''X'' = p @ ''Rev'' @ d \<longrightarrow> d = [] \<or> \<not> list_all is_digit d"
    by (auto simp: Cons_eq_append_conv)
  have d: "decimal (digits_val ''3'' + 1) = ''4''" by code_simp
  from revision_derivation [of "''3''" "''X ''" "''X''"] h1 h2 d show ?thesis by simp
qed

text \<open>
  From \<open>2 ^ 53\<close> on the increment is lost in the rounding of the number: revision
  \<open>9007199254740992\<close> is followed by itself, not by \<open>9007199254740993\<close>.
\<close>

theorem revision_beyond_safe_integers:
  "nextCustomId ''X Rev9007199254740992'' = ''X Rev9007199254740992'' \<and>
   nextCustomId ''X Rev9007199254740992'' \<noteq> ''X Rev9007199254740993''"
  by code_simp

section \<open>Statements, retries and transactions\<close>

lemma same_env_refl: "same_env w w"
  by (simp add: same_env_def)

lemma same_env_trans: "same_env w w1 \<Longrightarrow> same_env w1 w2 \<Longrightarrow> same_env w w2"
  by (simp add: same_env_def)

lemma issue_frame:
  "issue st w = (f, w1) \<Longrightarrow>
     same_env w w1 \<and> db w1 = db w \<and> snapshot w1 = snapshot w \<and> aborted w1 = aborted w \<and>
     log w1 = log w @ [st] \<and> f = upcoming w \<and> faults w1 = tl (faults w) \<and>
     elapsed w1 = duration f"
  by (auto simp: issue_def same_env_def upcoming_def duration_def split: list.splits)

lemma punctual_tl: "punctual w \<Longrightarrow> faults w1 = tl (faults w) \<Longrightarrow> punctual w1"
  by (cases "faults w") (simp_all add: punctual_def)

lemma punctual_upcoming:
  "punctual w \<Longrightarrow> upcoming w = Answers t \<Longrightarrow> t < 10000"
  by (cases "faults w") (auto simp: punctual_def upcoming_def in_time_def)

lemma late_not_punctual: "upcoming w = Answers t \<Longrightarrow> \<not> t < 10000 \<Longrightarrow> \<not> punctual w"
  using punctual_upcoming by blast

lemma all_fail_step:
  "faults w1 = tl (faults w) \<Longrightarrow>
     all_fail (Suc n) w \<longleftrightarrow> faults w \<noteq> [] \<and> \<not> in_time (upcoming w) \<and> all_fail n w1"
  by (cases "faults w") (auto simp: all_fail_def upcoming_def)

lemma all_fail_0: "all_fail 0 w"
  by (simp add: all_fail_def)

text \<open>One statement under the time-out.\<close>

lemma attempt_cases:
  assumes "withTimeout (query st run) 10000 w = (res, w')"
  shows "same_env w w' \<and> snapshot w' = snapshot w \<and> log w' = log w @ [st] \<and>
         faults w' = tl (faults w) \<and>
         (case upcoming w of
            Fails \<Rightarrow> res = Inl DatabaseError \<and> db w' = db w \<and>
                     aborted w' = (aborted w \<or> snapshot w \<noteq> None)
          | Answers t \<Rightarrow>
              aborted w' = aborted w \<and>
              (if aborted w then (\<exists>e. res = Inl e) \<and> db w' = db w
               else db w' = snd (run (db w)) \<and>
                    res = (if t < 10000 then Inr (fst (run (db w))) else Inl TimedOut)))"
proof -
  obtain f w1 where i: "issue st w = (f, w1)" by (cases "issue st w")
  note fr = issue_frame [OF i]
  show ?thesis
  proof (cases f)
    case Fails
    with fr have up: "upcoming w = Fails" by simp
    from Fails i have q: "query st run w = (Inl DatabaseError, failed_state w1)"
      by (simp add: query_def)
    from fr Fails have "elapsed (failed_state w1) = 0"
      by (simp add: failed_state_def duration_def)
    with q assms have "res = Inl DatabaseError" "w' = failed_state w1"
      by (simp_all add: withTimeout_def)
    with fr up show ?thesis
      by (auto simp: failed_state_def same_env_def)
  next
    case (Answers t)
    with fr have up: "upcoming w = Answers t" by simp
    show ?thesis
    proof (cases "aborted w")
      case True
      with i Answers fr have q: "query st run w = (Inl TransactionAborted, w1)"
        by (simp add: query_def)
      with assms have "w' = w1" "\<exists>e. res = Inl e"
        by (auto simp: withTimeout_def split: if_splits)
      with fr up True show ?thesis by auto
    next
      case False
      obtain r d where rd: "run (db w1) = (r, d)" by (cases "run (db w1)")
      with i Answers fr False have q: "query st run w = (Inr r, w1 \<lparr> db := d \<rparr>)"
        by (simp add: query_def)
      from fr Answers have "elapsed (w1 \<lparr> db := d \<rparr>) = t" by (simp add: duration_def)
      with q assms have "w' = w1 \<lparr> db := d \<rparr>" "res = (if t < 10000 then Inr r else Inl TimedOut)"
        by (auto simp: withTimeout_def split: if_splits)
      with fr up False rd show ?thesis by (auto simp: same_env_def)
    qed
  qed
qed


text \<open>The retry wrapper around one statement.\<close>

lemma retry_last_attempt: "executeWithRetry fn n w = fn (last_attempt fn n w)"
  by (induction n arbitrary: w) (auto split: prod.splits sum.splits)

lemma retry_dead:
  assumes "aborted w" "executeWithRetry (withTimeout (query st run) 10000) n w = (res, w')"
  shows "(\<exists>e. res = Inl e) \<and> aborted w' \<and> same_env w w' \<and> snapshot w' = snapshot w \<and>
         db w' = db w \<and> (punctual w \<longrightarrow> punctual w') \<and> (faults w = [] \<longrightarrow> faults w' = [])"
  using assms
proof (induction n arbitrary: w)
  case 0
  from attempt_cases [of st run w res w'] "0.prems" show ?case
    by (auto split: outcome.splits intro: punctual_tl)
next
  case (Suc n)
  obtain r1 w1 where a: "withTimeout (query st run) 10000 w = (r1, w1)"
    by (cases "withTimeout (query st run) 10000 w")
  from attempt_cases [OF a] Suc.prems(1)
  have c: "\<exists>e. r1 = Inl e" "aborted w1" "same_env w w1" "snapshot w1 = snapshot w"
    "db w1 = db w" "faults w1 = tl (faults w)"
    by (auto split: outcome.splits)
  with Suc.prems(2) a
  have rest: "executeWithRetry (withTimeout (query st run) 10000) n w1 = (res, w')" by auto
  from Suc.IH [OF c(2) rest] c show ?case
    by (auto intro: same_env_trans punctual_tl)
qed

lemma attempt_live:
  assumes "\<not> aborted w" "snapshot w \<noteq> None"
    "withTimeout (query st run) 10000 w = (res, w')"
  shows "same_env w w' \<and> snapshot w' = snapshot w \<and> (punctual w \<longrightarrow> punctual w') \<and>
         (faults w = [] \<longrightarrow> faults w' = []) \<and>
         (case res of
            Inr r \<Rightarrow>
              \<not> aborted w' \<and>
              (\<exists>j. (punctual w \<longrightarrow> j = 0) \<and> r = fst (run (((\<lambda>d. snd (run d)) ^^ j) (db w))) \<and>
                    db w' = snd (run (((\<lambda>d. snd (run d)) ^^ j) (db w))))
          | Inl e \<Rightarrow>
              faults w \<noteq> [] \<and>
              (aborted w' \<or> (\<not> punctual w \<and> (\<exists>j. db w' = ((\<lambda>d. snd (run d)) ^^ j) (db w)))))"
proof -
  note c = attempt_cases [of st run w res w']
  show ?thesis
  proof (cases "upcoming w")
    case Fails
    then have "faults w \<noteq> []" by (auto simp: upcoming_def)
    with c assms Fails show ?thesis by (auto intro: punctual_tl)
  next
    case (Answers t)
    show ?thesis
    proof (cases "t < 10000")
      case True
      with c assms Answers have "res = Inr (fst (run (db w)))" "db w' = snd (run (db w))"
        "\<not> aborted w'" by auto
      then have "\<exists>j. (punctual w \<longrightarrow> j = 0) \<and>
          res = Inr (fst (run (((\<lambda>d. snd (run d)) ^^ j) (db w)))) \<and>
          db w' = snd (run (((\<lambda>d. snd (run d)) ^^ j) (db w)))"
        by (intro exI [of _ 0]) simp
      with c assms Answers True show ?thesis by (auto intro: punctual_tl)
    next
      case False
      with Answers have np: "\<not> punctual w" by (rule late_not_punctual)
      from False Answers have ne: "faults w \<noteq> []" by (auto simp: upcoming_def)
      from c assms Answers False have "res = Inl TimedOut" "db w' = snd (run (db w))" by auto
      then have "\<exists>j. db w' = ((\<lambda>d. snd (run d)) ^^ j) (db w)"
        by (intro exI [of _ 1]) simp
      with c assms Answers False np ne \<open>res = Inl TimedOut\<close> show ?thesis by auto
    qed
  qed
qed

lemma retry_live:
  assumes "\<not> aborted w" "snapshot w \<noteq> None"
    "executeWithRetry (withTimeout (query st run) 10000) n w = (res, w')"
  shows "same_env w w' \<and> snapshot w' = snapshot w \<and> (punctual w \<longrightarrow> punctual w') \<and>
         (faults w = [] \<longrightarrow> faults w' = []) \<and>
         (case res of
            Inr r \<Rightarrow>
              \<not> aborted w' \<and>
              (\<exists>j. (punctual w \<longrightarrow> j = 0) \<and> r = fst (run (((\<lambda>d. snd (run d)) ^^ j) (db w))) \<and>
                    db w' = snd (run (((\<lambda>d. snd (run d)) ^^ j) (db w))))
          | Inl e \<Rightarrow>
              faults w \<noteq> [] \<and>
              (aborted w' \<or> (\<not> punctual w \<and> (\<exists>j. db w' = ((\<lambda>d. snd (run d)) ^^ j) (db w)))))"
  using assms
proof (induction n arbitrary: w)
  case 0
  then show ?case by (simp add: attempt_live)
next
  case (Suc n)
  obtain r1 w1 where a: "withTimeout (query st run) 10000 w = (r1, w1)"
    by (cases "withTimeout (query st run) 10000 w")
  note c = attempt_cases [OF a]
  show ?case
  proof (cases r1)
    case (Inr r)
    with Suc.prems(3) a have eq: "res = r1" "w' = w1" by auto
    from attempt_live [OF Suc.prems(1,2) a] eq Inr show ?thesis by simp
  next
    case (Inl e)
    with Suc.prems(3) a
    have rest: "executeWithRetry (withTimeout (query st run) 10000) n w1 = (res, w')" by auto
    from c Inl Suc.prems(1) have ne: "faults w \<noteq> []"
      by (auto simp: upcoming_def split: outcome.splits if_splits list.splits)
    from c have env: "same_env w w1" "snapshot w1 = snapshot w" "faults w1 = tl (faults w)"
      by simp_all
    show ?thesis
    proof (cases "aborted w1")
      case True
      from retry_dead [OF True rest] env ne show ?thesis
        by (auto intro: same_env_trans punctual_tl)
    next
      case False
      with c Inl Suc.prems(1,2) obtain t where t: "upcoming w = Answers t" "\<not> t < 10000"
        and d1: "db w1 = snd (run (db w))"
        by (auto split: outcome.splits if_splits)
      from t have np: "\<not> punctual w" by (rule late_not_punctual)
      from Suc.prems(2) env have s1: "snapshot w1 \<noteq> None" by simp
      note ih = Suc.IH [OF False s1 rest]
      have shift: "((\<lambda>d. snd (run d)) ^^ j) (db w1) = ((\<lambda>d. snd (run d)) ^^ Suc j) (db w)" for j
        using funpow_swap1 [of "\<lambda>d. snd (run d)" j "db w"] by (simp add: d1)
      show ?thesis
      proof (cases res)
        case (Inr r)
        with ih obtain j where "r = fst (run (((\<lambda>d. snd (run d)) ^^ j) (db w1)))"
          "db w' = snd (run (((\<lambda>d. snd (run d)) ^^ j) (db w1)))" "\<not> aborted w'" by auto
        then have "\<exists>j. (punctual w \<longrightarrow> j = 0) \<and>
            r = fst (run (((\<lambda>d. snd (run d)) ^^ j) (db w))) \<and>
            db w' = snd (run (((\<lambda>d. snd (run d)) ^^ j) (db w)))"
          unfolding shift using np by blast
        with ih Inr env ne \<open>\<not> aborted w'\<close> show ?thesis
          by (auto intro: same_env_trans punctual_tl)
      next
        case (Inl e')
        with ih have "aborted w' \<or> (\<exists>j. db w' = ((\<lambda>d. snd (run d)) ^^ j) (db w1))" by auto
        then have "aborted w' \<or> (\<exists>j. db w' = ((\<lambda>d. snd (run d)) ^^ j) (db w))"
          unfolding shift by blast
        with ih Inl env ne np show ?thesis
          by (auto intro: same_env_trans punctual_tl)
      qed
    qed
  qed
qed


text \<open>The statements that open and close a transaction.\<close>

lemma begin_cases:
  assumes "begin_transaction w = (res, w')"
  shows "same_env w w' \<and> db w' = db w \<and> committed w' = committed w \<and>
         (punctual w \<longrightarrow> punctual w') \<and> (faults w = [] \<longrightarrow> faults w' = []) \<and>
         (case res of
            Inl e \<Rightarrow> snapshot w' = snapshot w \<and> (faults w \<noteq> [] \<or> aborted w) \<and>
                     (if snapshot w = None then aborted w' = aborted w else aborted w')
          | Inr u \<Rightarrow> \<not> aborted w \<and> \<not> aborted w' \<and> snapshot w' = Some (committed w))"
proof -
  obtain f w1 where i: "issue Begin w = (f, w1)" by (cases "issue Begin w")
  note fr = issue_frame [OF i]
  have main: "faults w' = tl (faults w) \<and> same_env w w' \<and> db w' = db w \<and>
      committed w' = committed w \<and>
      (case res of
            Inl e \<Rightarrow> snapshot w' = snapshot w \<and> (faults w \<noteq> [] \<or> aborted w) \<and>
                     (if snapshot w = None then aborted w' = aborted w else aborted w')
          | Inr u \<Rightarrow> \<not> aborted w \<and> \<not> aborted w' \<and> snapshot w' = Some (committed w))"
  proof (cases f)
    case Fails
    with assms i have "res = Inl DatabaseError" "w' = failed_state w1"
      by (simp_all add: begin_transaction_def)
    moreover from Fails fr have "faults w \<noteq> []" by (auto simp: upcoming_def)
    ultimately show ?thesis using fr
      by (auto simp: failed_state_def same_env_def committed_def)
  next
    case (Answers t)
    show ?thesis
    proof (cases "aborted w")
      case True
      with Answers assms i fr have "res = Inl TransactionAborted" "w' = w1"
        by (simp_all add: begin_transaction_def)
      with fr True show ?thesis by (auto simp: committed_def)
    next
      case False
      with Answers assms i fr have "res = Inr ()"
        "w' = (if snapshot w1 = None then w1 \<lparr> snapshot := Some (db w1) \<rparr> else w1)"
        by (simp_all add: begin_transaction_def)
      with fr False show ?thesis
        by (auto simp: committed_def same_env_def)
    qed
  qed
  then show ?thesis by (auto intro: punctual_tl)
qed

lemma commit_cases:
  assumes "commit_transaction w = (res, w')" "\<not> aborted w"
  shows "same_env w w' \<and> snapshot w' = None \<and> \<not> aborted w' \<and>
         (punctual w \<longrightarrow> punctual w') \<and> (faults w = [] \<longrightarrow> faults w' = []) \<and>
         (case res of
            Inl e \<Rightarrow> db w' = committed w \<and> faults w \<noteq> []
          | Inr u \<Rightarrow> db w' = db w)"
proof -
  obtain f w1 where i: "issue Commit w = (f, w1)" by (cases "issue Commit w")
  note fr = issue_frame [OF i]
  have main: "faults w' = tl (faults w) \<and> same_env w w' \<and> snapshot w' = None \<and>
      \<not> aborted w' \<and>
      (case res of Inl e \<Rightarrow> db w' = committed w \<and> faults w \<noteq> [] | Inr u \<Rightarrow> db w' = db w)"
  proof (cases f)
    case Fails
    with assms i have "res = Inl DatabaseError" "w' = rolled_back w1"
      by (simp_all add: commit_transaction_def)
    moreover from Fails fr have "faults w \<noteq> []" by (auto simp: upcoming_def)
    ultimately show ?thesis using fr
      by (auto simp: rolled_back_def same_env_def committed_def split: option.splits)
  next
    case (Answers t)
    from fr assms(2) have "\<not> aborted w1" by simp
    with Answers assms(1) i have "res = Inr ()" "w' = w1 \<lparr> snapshot := None \<rparr>"
      by (simp_all add: commit_transaction_def)
    with fr assms(2) show ?thesis
      by (auto simp: same_env_def)
  qed
  then show ?thesis by (auto intro: punctual_tl)
qed

lemma rollback_cases:
  assumes "rollback_transaction w = (res, w')"
  shows "same_env w w' \<and> committed w' = committed w \<and>
         (punctual w \<longrightarrow> punctual w') \<and> (faults w = [] \<longrightarrow> faults w' = []) \<and>
         (case res of
            Inl e \<Rightarrow> snapshot w' = snapshot w \<and> db w' = db w \<and> faults w \<noteq> [] \<and>
                     (if snapshot w = None then aborted w' = aborted w else aborted w')
          | Inr u \<Rightarrow> snapshot w' = None \<and> \<not> aborted w' \<and> db w' = committed w)"
proof -
  obtain f w1 where i: "issue Rollback w = (f, w1)" by (cases "issue Rollback w")
  note fr = issue_frame [OF i]
  have main: "faults w' = tl (faults w) \<and> same_env w w' \<and> committed w' = committed w \<and>
      (case res of
            Inl e \<Rightarrow> snapshot w' = snapshot w \<and> db w' = db w \<and> faults w \<noteq> [] \<and>
                     (if snapshot w = None then aborted w' = aborted w else aborted w')
          | Inr u \<Rightarrow> snapshot w' = None \<and> \<not> aborted w' \<and> db w' = committed w)"
  proof (cases f)
    case Fails
    with assms i have "res = Inl DatabaseError" "w' = failed_state w1"
      by (auto simp: rollback_transaction_def)
    moreover from Fails fr have "faults w \<noteq> []" by (auto simp: upcoming_def)
    ultimately show ?thesis using fr
      by (auto simp: failed_state_def same_env_def committed_def)
  next
    case (Answers t)
    with assms i have "res = Inr ()" "w' = rolled_back w1"
      by (auto simp: rollback_transaction_def)
    with fr show ?thesis
      by (auto simp: rolled_back_def same_env_def committed_def split: option.splits)
  qed
  then show ?thesis by (auto intro: punctual_tl)
qed

text \<open>The statements of a revision on the contents a transaction of the request holds.\<close>

lemma updated_row_twice:
  "u_actual_delivery_date u' = u_actual_delivery_date u \<Longrightarrow>
     updated_row u ts (updated_row u' ts' q) = updated_row u ts q"
  by (simp add: updated_row_def coalesce_def)

lemma update_draft:
  "updated_row (revision_params body (now_iso w) c t) (current_timestamp w) (draft body w t cid q i) =
     updated_row (revision_params body (now_iso w) c t) (current_timestamp w) q"
  by (simp add: draft_def updated_row_twice revision_params_def)

lemma custom_id_draft:
  "custom_id q = Some cid \<Longrightarrow> custom_id (draft body w t cid q i) = Some ((nextCustomId ^^ i) cid)"
  by (simp add: draft_def updated_row_def revision_params_def)

lemma draft_Suc:
  "draft body w t cid q (Suc i) =
     updated_row (revision_params body (now_iso w) (nextCustomId ((nextCustomId ^^ i) cid)) t)
       (current_timestamp w) q"
  by (simp add: draft_def)

lemma drafted_eq:
  "revisable qid body w q cid t \<Longrightarrow>
     drafted qid body w i rows =
       (db w) \<lparr> quotations := (quotations (db w))(qid \<mapsto> draft body w t cid q i),
               quotation_products := rows \<rparr>"
  by (simp add: drafted_def revisable_def)

lemma drafted_0:
  assumes "revisable qid body w q cid t"
  shows "drafted qid body w 0 (quotation_products (db w)) = db w"
proof -
  from assms have "quotations (db w) qid = Some q" by (simp add: revisable_def)
  then have "(quotations (db w))(qid \<mapsto> q) = quotations (db w)" by (rule map_upd_triv)
  then show ?thesis by (simp add: drafted_eq [OF assms] draft_def)
qed

lemma select_drafted:
  assumes "revisable qid body w q cid t"
  shows "select_custom_id qid (drafted qid body w i rows) = [Some ((nextCustomId ^^ i) cid)]"
proof -
  from assms have "custom_id q = Some cid" by (simp add: revisable_def)
  then show ?thesis
    by (simp add: drafted_eq [OF assms] select_custom_id_def custom_id_draft)
qed

lemma update_drafted:
  assumes "revisable qid body w q cid t"
  shows "update_quotation qid
           (revision_params body (now_iso w) (nextCustomId ((nextCustomId ^^ i) cid)) t)
           (current_timestamp w) (drafted qid body w j rows) =
         drafted qid body w (Suc i) rows"
  by (simp add: drafted_eq [OF assms] update_quotation_def update_draft draft_Suc)

lemma delete_drafted:
  assumes "revisable qid body w q cid t"
  shows "delete_products qid (drafted qid body w i rows) =
       drafted qid body w i (filter (\<lambda>r. quotation_id r \<noteq> qid) rows)"
  by (simp add: drafted_eq [OF assms] delete_products_def)

lemma insert_drafted:
  assumes "revisable qid body w q cid t"
  shows "insert_product r (drafted qid body w i rows) = drafted qid body w i (rows @ [r])"
  by (simp add: drafted_eq [OF assms] insert_product_def)

text \<open>The steps of a revision inside its transaction.\<close>

lemma inside_between:
  assumes "inside qid body w0 i rows w" "same_env w w'" "snapshot w' = snapshot w"
    "punctual w \<longrightarrow> punctual w'"
    "aborted w' \<or> (\<not> punctual w \<and> (\<exists>i' rows'. db w' = drafted qid body w0 i' rows' \<and>
        kept qid body (db w0) rows'))"
  shows "between qid body w0 w'"
  using assms
  by (auto simp: inside_def between_def committed_def intro: same_env_trans)

lemma step_inside:
  assumes "inside qid body w0 i rows w"
    and "executeWithRetry (withTimeout (query st run) 10000) n w = (res, w')"
    and "\<And>j. \<exists>i' rows'. ((\<lambda>d. snd (run d)) ^^ j) (drafted qid body w0 i rows) =
            drafted qid body w0 i' rows' \<and> kept qid body (db w0) rows'"
  shows "same_env w w' \<and> (faults w = [] \<longrightarrow> faults w' = []) \<and>
         (case res of
            Inl e \<Rightarrow> between qid body w0 w' \<and> faults w \<noteq> []
          | Inr r \<Rightarrow>
              same_env w0 w' \<and> (punctual w0 \<longrightarrow> punctual w') \<and> snapshot w' = Some (db w0) \<and>
              \<not> aborted w' \<and>
              (\<exists>j. (punctual w0 \<longrightarrow> j = 0) \<and>
                 r = fst (run (((\<lambda>d. snd (run d)) ^^ j) (drafted qid body w0 i rows))) \<and>
                 db w' = snd (run (((\<lambda>d. snd (run d)) ^^ j) (drafted qid body w0 i rows)))))"
proof -
  from assms(1) have l: "\<not> aborted w" "snapshot w \<noteq> None" and d: "db w = drafted qid body w0 i rows"
    and p: "punctual w0 \<longrightarrow> punctual w" and env: "same_env w0 w" and s: "snapshot w = Some (db w0)"
    by (simp_all add: inside_def)
  note c = retry_live [OF l assms(2)]
  show ?thesis
  proof (cases res)
    case (Inl e)
    with c have ab: "aborted w' \<or> (\<not> punctual w \<and> (\<exists>j. db w' = ((\<lambda>d. snd (run d)) ^^ j) (db w)))"
      and ne: "faults w \<noteq> []" by simp_all
    from ab assms(3) have "aborted w' \<or> (\<not> punctual w \<and>
        (\<exists>i' rows'. db w' = drafted qid body w0 i' rows' \<and> kept qid body (db w0) rows'))"
      unfolding d by metis
    with assms(1) c have "between qid body w0 w'" by (intro inside_between) simp_all
    with c ne Inl show ?thesis by simp
  next
    case (Inr r)
    with c p env s show ?thesis
      by (auto simp: d intro: same_env_trans)
  qed
qed

lemma kept_self: "kept qid body d (quotation_products d)"
  by (simp add: kept_def)

lemma kept_filter:
  "kept qid body d rows \<Longrightarrow> 0 < item_count body \<Longrightarrow>
     kept qid body d (filter (\<lambda>r. quotation_id r \<noteq> qid) rows)"
  by (simp add: kept_def)

lemma kept_append:
  "kept qid body d rows \<Longrightarrow> 0 < item_count body \<Longrightarrow> \<forall>r \<in> set junk. quotation_id r = qid \<Longrightarrow>
     kept qid body d (rows @ junk)"
  by (simp add: kept_def filter_empty_conv [THEN iffD2])

lemma funpow_read: "((\<lambda>d. d) ^^ j) x = x"
  by (induction j) simp_all

lemma funpow_update:
  assumes "revisable qid body w q cid t"
  shows "(update_quotation qid
            (revision_params body (now_iso w) (nextCustomId ((nextCustomId ^^ i) cid)) t)
            (current_timestamp w) ^^ j) (drafted qid body w i rows) =
         drafted qid body w (if j = 0 then i else Suc i) rows"
  by (induction j) (simp_all add: update_drafted [OF assms])

lemma funpow_delete:
  assumes "revisable qid body w q cid t"
  shows "(delete_products qid ^^ j) (drafted qid body w i rows) =
         drafted qid body w i (if j = 0 then rows else filter (\<lambda>r. quotation_id r \<noteq> qid) rows)"
  by (induction j) (simp_all add: delete_drafted [OF assms])

lemma funpow_insert:
  assumes "revisable qid body w q cid t"
  shows "(insert_product r ^^ j) (drafted qid body w i rows) =
         drafted qid body w i (rows @ replicate j r)"
  by (induction j) (simp_all add: insert_drafted [OF assms] replicate_append_same)

lemma sum_products_Inr: "sum_products t ps = Inr t' \<Longrightarrow> None \<notin> set ps"
  by (induction t ps rule: sum_products.induct) auto

lemma revisable_items:
  assumes "revisable qid body w q cid t" "b_products body = Some ps" "ps \<noteq> []"
  shows "None \<notin> set ps"
  using assms by (auto simp: revisable_def calcTotals_def Let_def dest: sum_products_Inr)

lemma inside_env:
  "inside qid body w0 i rows w \<Longrightarrow> now_iso w = now_iso w0 \<and> current_timestamp w = current_timestamp w0"
  by (simp add: inside_def same_env_def)

lemma insert_products_cases:
  assumes "revisable qid body w0 q cid t" "0 < item_count body" "None \<notin> set ps"
    "inside qid body w0 i rows w" "insert_products qid ps w = (res, w')"
  shows "same_env w w' \<and> (faults w = [] \<longrightarrow> faults w' = []) \<and>
         (case res of
            Inl e \<Rightarrow> between qid body w0 w' \<and> faults w \<noteq> []
          | Inr u \<Rightarrow>
              (\<exists>ms. length ms = length ps \<and> (punctual w0 \<longrightarrow> ms = replicate (length ps) 0) \<and>
                 inside qid body w0 i (rows @ copies qid ps ms) w'))"
  using assms(3-)
proof (induction ps arbitrary: w rows)
  case Nil
  then have "res = Inr ()" "w' = w" by (simp_all add: ret_def)
  with Nil.prems(2) show ?case by (simp add: same_env_refl)
next
  case (Cons x ps)
  from Cons.prems(1) obtain p where x: "x = Some p" by (cases x) auto
  let ?row = "inserted_row qid p"
  let ?run = "\<lambda>d. ((), insert_product ?row d)"
  obtain r1 w1 where s: "executeWithRetry (withTimeout (query (InsertProduct qid) ?run) 10000) 3 w = (r1, w1)"
    by (cases "executeWithRetry (withTimeout (query (InsertProduct qid) ?run) 10000) 3 w")
  from Cons.prems(2) have k: "kept qid body (db w0) rows" by (simp add: inside_def)
  have junk: "kept qid body (db w0) (rows @ replicate j ?row)" for j
    using k assms(2) by (intro kept_append) (simp_all add: inserted_row_def)
  have iter: "\<exists>i' rows'. ((\<lambda>d. snd (?run d)) ^^ j) (drafted qid body w0 i rows) =
      drafted qid body w0 i' rows' \<and> kept qid body (db w0) rows'" for j
    using junk [of j] by (simp add: funpow_insert [OF assms(1)]) blast
  note c = step_inside [OF Cons.prems(2) s iter]
  show ?case
  proof (cases r1)
    case (Inl e)
    with Cons.prems(3) s x have "res = Inl e" "w' = w1" by (simp_all add: and_then_def)
    with c Inl show ?thesis by simp
  next
    case (Inr u)
    with Cons.prems(3) s x have rest: "insert_products qid ps w1 = (res, w')"
      by (simp add: and_then_def)
    from c Inr obtain j where j: "punctual w0 \<longrightarrow> j = 0"
      and d1: "db w1 = snd (?run (((\<lambda>d. snd (?run d)) ^^ j) (drafted qid body w0 i rows)))"
      and w1: "same_env w0 w1" "punctual w0 \<longrightarrow> punctual w1" "snapshot w1 = Some (db w0)"
        "\<not> aborted w1" by auto
    from d1 have "db w1 = drafted qid body w0 i (rows @ replicate (Suc j) ?row)"
      by (simp add: funpow_insert [OF assms(1)] insert_drafted [OF assms(1)]
          replicate_append_same)
    with w1 junk [of "Suc j"]
    have in1: "inside qid body w0 i (rows @ replicate (Suc j) ?row) w1"
      by (simp add: inside_def)
    from Cons.prems(1) have n: "None \<notin> set ps" by simp
    note ih = Cons.IH [OF n in1 rest]
    show ?thesis
    proof (cases res)
      case (Inl e)
      with ih c show ?thesis by (auto intro: same_env_trans)
    next
      case (Inr u')
      with ih obtain ms where ms: "length ms = length ps"
        "punctual w0 \<longrightarrow> ms = replicate (length ps) 0"
        "inside qid body w0 i ((rows @ replicate (Suc j) ?row) @ copies qid ps ms) w'" by auto
      have "\<exists>ms'. length ms' = length (x # ps) \<and>
          (punctual w0 \<longrightarrow> ms' = replicate (length (x # ps)) 0) \<and>
          inside qid body w0 i (rows @ copies qid (x # ps) ms') w'"
        using ms j x by (intro exI [of _ "j # ms"]) simp
      with ih c Inr show ?thesis by (auto intro: same_env_trans)
    qed
  qed
qed

lemma replace_products_cases:
  assumes "revisable qid body w0 q cid t" "inside qid body w0 i rows w"
    "replace_products qid (b_products body) w = (res, w')"
  shows "same_env w w' \<and> (faults w = [] \<longrightarrow> faults w' = []) \<and>
         (case res of
            Inl e \<Rightarrow> between qid body w0 w' \<and> faults w \<noteq> []
          | Inr u \<Rightarrow>
              (\<exists>ms. length ms = item_count body \<and>
                 (punctual w0 \<longrightarrow> ms = replicate (item_count body) 0) \<and>
                 inside qid body w0 i (items_after qid body (db w0) ms) w'))"
proof (cases "item_count body = 0")
  case True
  with assms(3) have eq: "res = Inr ()" "w' = w"
    by (auto simp: replace_products_def item_count_def ret_def split: option.splits)
  from True assms(2) have "rows = quotation_products (db w0)" by (simp add: inside_def kept_def)
  with True have "items_after qid body (db w0) [] = rows"
    by (auto simp: items_after_def item_count_def split: option.splits)
  with assms(2) True eq show ?thesis by (simp add: same_env_refl)
next
  case False
  then obtain ps where ps: "b_products body = Some ps" "ps \<noteq> []"
    by (auto simp: item_count_def split: option.splits)
  then have cnt: "0 < item_count body" "item_count body = length ps" by (simp_all add: item_count_def)
  note items = revisable_items [OF assms(1) ps]
  let ?run = "\<lambda>d. ((), delete_products qid d)"
  obtain r1 w1 where s: "executeWithRetry (withTimeout (query (DeleteProducts qid) ?run) 10000) 3 w = (r1, w1)"
    by (cases "executeWithRetry (withTimeout (query (DeleteProducts qid) ?run) 10000) 3 w")
  from assms(2) have k: "kept qid body (db w0) rows" by (simp add: inside_def)
  have iter: "\<exists>i' rows'. ((\<lambda>d. snd (?run d)) ^^ j) (drafted qid body w0 i rows) =
      drafted qid body w0 i' rows' \<and> kept qid body (db w0) rows'" for j
    using k kept_filter [OF k cnt(1)] by (simp add: funpow_delete [OF assms(1)]) blast
  note c = step_inside [OF assms(2) s iter]
  show ?thesis
  proof (cases r1)
    case (Inl e)
    with assms(3) s ps have "res = Inl e" "w' = w1"
      by (simp_all add: replace_products_def and_then_def)
    with c Inl show ?thesis by simp
  next
    case (Inr u)
    with assms(3) s ps have rest: "insert_products qid ps w1 = (res, w')"
      by (simp add: replace_products_def and_then_def)
    let ?rows1 = "filter (\<lambda>r. quotation_id r \<noteq> qid) rows"
    from c Inr obtain j where
      d1: "db w1 = snd (?run (((\<lambda>d. snd (?run d)) ^^ j) (drafted qid body w0 i rows)))"
      and w1: "same_env w0 w1" "punctual w0 \<longrightarrow> punctual w1" "snapshot w1 = Some (db w0)"
        "\<not> aborted w1" by auto
    from d1 have "db w1 = drafted qid body w0 i ?rows1"
      by (simp add: funpow_delete [OF assms(1)] delete_drafted [OF assms(1)])
    with w1 kept_filter [OF k cnt(1)] have in1: "inside qid body w0 i ?rows1 w1"
      by (simp add: inside_def)
    note ip = insert_products_cases [OF assms(1) cnt(1) items in1 rest]
    from k have "?rows1 = filter (\<lambda>r. quotation_id r \<noteq> qid) (quotation_products (db w0))"
      by (simp add: kept_def)
    then have after: "?rows1 @ copies qid ps ms = items_after qid body (db w0) ms" for ms
      using ps by (simp add: items_after_def)
    from ip c show ?thesis
      by (auto simp: after cnt(2) intro: same_env_trans split: sum.splits)
  qed
qed


lemma write_revision_cases:
  assumes "revisable qid body w0 q cid t" "inside qid body w0 i rows w" "punctual w0 \<longrightarrow> i = 0"
    "write_revision qid body ((nextCustomId ^^ i) cid) w = (res, w')"
  shows "(faults w = [] \<longrightarrow> faults w' = []) \<and>
         (case res of
            Inl e \<Rightarrow> between qid body w0 w' \<and> faults w \<noteq> []
          | Inr r \<Rightarrow> answered qid body w0 r w')"
proof -
  let ?u = "revision_params body (now_iso w0) (nextCustomId ((nextCustomId ^^ i) cid)) t"
  let ?run = "\<lambda>d. ((), update_quotation qid ?u (current_timestamp w0) d)"
  let ?upd = "executeWithRetry (withTimeout (query (UpdateQuotation qid) ?run) 10000) 3"
  from assms(1) have tot: "calcTotals (b_products body) = Inr t" by (simp add: revisable_def)
  note env = inside_env [OF assms(2)]
  from assms(2) have k: "kept qid body (db w0) rows" by (simp add: inside_def)
  obtain r1 w1 where s1: "?upd w = (r1, w1)" by (cases "?upd w")
  have iter: "\<exists>i' rows'. ((\<lambda>d. snd (?run d)) ^^ j) (drafted qid body w0 i rows) =
      drafted qid body w0 i' rows' \<and> kept qid body (db w0) rows'" for j
    using k by (simp add: funpow_update [OF assms(1)]) blast
  note c1 = step_inside [OF assms(2) s1 iter]
  show ?thesis
  proof (cases r1)
    case (Inl e)
    with assms(4) s1 have "res = Inl e" "w' = w1"
      by (simp_all add: write_revision_def and_then_def Let_def tot env)
    with c1 Inl show ?thesis by simp
  next
    case r1: (Inr u1)
    from c1 r1 obtain j where
      d1: "db w1 = snd (?run (((\<lambda>d. snd (?run d)) ^^ j) (drafted qid body w0 i rows)))"
      and w1: "same_env w0 w1" "punctual w0 \<longrightarrow> punctual w1" "snapshot w1 = Some (db w0)"
        "\<not> aborted w1" by auto
    from d1 have "db w1 = drafted qid body w0 (Suc i) rows"
      by (simp add: funpow_update [OF assms(1)] update_drafted [OF assms(1)])
    with w1 k have in1: "inside qid body w0 (Suc i) rows w1" by (simp add: inside_def)
    obtain r2 w2 where s2: "replace_products qid (b_products body) w1 = (r2, w2)"
      by (cases "replace_products qid (b_products body) w1")
    note c2 = replace_products_cases [OF assms(1) in1 s2]
    from c1 c2 have f2: "faults w = [] \<longrightarrow> faults w2 = []" by simp
    show ?thesis
    proof (cases r2)
      case (Inl e)
      with assms(4) s1 r1 s2 have "res = Inl e" "w' = w2"
        by (simp_all add: write_revision_def and_then_def Let_def tot env)
      with c1 c2 Inl show ?thesis by auto
    next
      case r2: (Inr u2)
      with c2 obtain ms where ms: "length ms = item_count body"
        "punctual w0 \<longrightarrow> ms = replicate (item_count body) 0"
        and in2: "inside qid body w0 (Suc i) (items_after qid body (db w0) ms) w2" by auto
      obtain r3 w3 where s3: "commit_transaction w2 = (r3, w3)"
        by (cases "commit_transaction w2")
      from in2 have l2: "\<not> aborted w2" and env2: "same_env w0 w2" "punctual w0 \<longrightarrow> punctual w2"
        and c0: "committed w2 = db w0"
        and d2: "db w2 = revision_effect qid body w0 i ms"
        by (simp_all add: inside_def committed_def revision_effect_def)
      note c3 = commit_cases [OF s3 l2]
      from c3 env2 have env3: "same_env w0 w3" "punctual w0 \<longrightarrow> punctual w3"
        by (auto intro: same_env_trans)
      show ?thesis
      proof (cases r3)
        case (Inl e)
        with assms(4) s1 r1 s2 r2 s3 have eq: "res = Inl e" "w' = w3"
          by (simp_all add: write_revision_def and_then_def Let_def tot env)
        from c3 Inl c0 env3 have "between qid body w0 w3"
          by (simp add: between_def committed_def)
        with eq c3 Inl f2 show ?thesis by auto
      next
        case (Inr u3)
        with assms(4) s1 r1 s2 r2 s3
        have eq: "res = Inr (Response 200 (Revised ((nextCustomId ^^ Suc i) cid)))" "w' = w3"
          by (simp_all add: write_revision_def and_then_def Let_def ret_def tot env)
        from c3 Inr d2 have "db w3 = revision_effect qid body w0 i ms" "idle w3"
          by (simp_all add: idle_def)
        with env3 assms(1,3) ms have "answered qid body w0
            (Response 200 (Revised ((nextCustomId ^^ Suc i) cid))) w3"
          unfolding answered_def by blast
        with eq c3 f2 show ?thesis by simp
      qed
    qed
  qed
qed

lemma drafted_start: "drafted qid body w 0 (quotation_products (db w)) = db w"
proof (cases "\<exists>q cid t. revisable qid body w q cid t")
  case True
  then show ?thesis using drafted_0 by blast
next
  case False
  then show ?thesis
    by (auto simp: revisable_def drafted_def split: option.splits sum.splits)
qed

lemma inside_rest:
  assumes "inside qid body w0 i rows w" "punctual w0 \<longrightarrow> i = 0 \<and> rows = quotation_products (db w0)"
  shows "between qid body w0 w"
  using assms by (auto simp: inside_def between_def committed_def)

lemma revision_attempt_cases:
  assumes "between qid body w0 w" "revision_attempt qid body w = (res, w')"
  shows "(faults w = [] \<longrightarrow> faults w' = []) \<and>
         (case res of
            Inl e \<Rightarrow> between qid body w0 w' \<and>
                     (faults w \<noteq> [] \<or> snapshot w \<noteq> None \<or> futile qid body w0)
          | Inr r \<Rightarrow> answered qid body w0 r w')"
proof -
  obtain r0 w1 where s0: "begin_transaction w = (r0, w1)" by (cases "begin_transaction w")
  note c0 = begin_cases [OF s0]
  show ?thesis
  proof (cases r0)
    case (Inl e)
    with assms(2) s0 have eq: "res = Inl e" "w' = w1"
      by (simp_all add: revision_attempt_def and_then_def)
    from c0 Inl assms(1) have "between qid body w0 w1"
      by (auto simp: between_def intro: same_env_trans split: if_splits)
    moreover from c0 Inl assms(1) have "faults w \<noteq> [] \<or> snapshot w \<noteq> None"
      by (auto simp: between_def)
    ultimately show ?thesis using eq c0 by simp
  next
    case r0: (Inr u0)
    with c0 have l1: "\<not> aborted w" "\<not> aborted w1" "snapshot w1 = Some (committed w)"
      "db w1 = db w" "same_env w w1" "punctual w \<longrightarrow> punctual w1" by simp_all
    from assms(1) l1 obtain i rows where
      ir: "db w = drafted qid body w0 i rows" "kept qid body (db w0) rows"
        "punctual w0 \<longrightarrow> i = 0 \<and> rows = quotation_products (db w0)"
    proof (cases "snapshot w")
      case None
      with assms(1) have "db w = db w0" by (simp add: between_def)
      then have "db w = drafted qid body w0 0 (quotation_products (db w0))"
        by (simp add: drafted_start)
      then show ?thesis using that kept_self by blast
    next
      case (Some a)
      with assms(1) l1(1) that show ?thesis by (auto simp: between_def)
    qed
    from assms(1) l1 ir have in1: "inside qid body w0 i rows w1"
      by (auto simp: inside_def between_def intro: same_env_trans)
    let ?run = "\<lambda>d. (select_custom_id qid d, d)"
    let ?sel = "executeWithRetry (withTimeout (query (SelectCustomId qid) ?run) 10000) 3"
    obtain r1 w2 where s1: "?sel w1 = (r1, w2)" by (cases "?sel w1")
    have iter: "\<exists>i' rows'. ((\<lambda>d. snd (?run d)) ^^ j) (drafted qid body w0 i rows) =
        drafted qid body w0 i' rows' \<and> kept qid body (db w0) rows'" for j
      using ir(2) by (simp add: funpow_read) blast
    note c1 = step_inside [OF in1 s1 iter]
    from c0 c1 have f2: "faults w = [] \<longrightarrow> faults w2 = []" by simp
    show ?thesis
    proof (cases r1)
      case (Inl e)
      with assms(2) s0 r0 s1 have "res = Inl e" "w' = w2"
        by (simp_all add: revision_attempt_def and_then_def)
      with c0 c1 Inl show ?thesis by auto
    next
      case r1: (Inr found)
      with c1 have found: "found = select_custom_id qid (drafted qid body w0 i rows)"
        and w2: "same_env w0 w2" "punctual w0 \<longrightarrow> punctual w2" "snapshot w2 = Some (db w0)"
          "\<not> aborted w2" "db w2 = drafted qid body w0 i rows"
        by (auto simp: funpow_read)
      with ir have in2: "inside qid body w0 i rows w2" by (simp add: inside_def)
      note rest2 = inside_rest [OF in2 ir(3)]
      show ?thesis
      proof (cases "quotations (db w0) qid")
        case None
        then have "drafted qid body w0 i rows = db w0" by (simp add: drafted_def)
        with found None have nil: "found = []" by (simp add: select_custom_id_def)
        obtain r3 w3 where s3: "rollback_transaction w2 = (r3, w3)"
          by (cases "rollback_transaction w2")
        note c3 = rollback_cases [OF s3]
        from w2 have cm: "committed w2 = db w0" by (simp add: committed_def)
        show ?thesis
        proof (cases r3)
          case (Inl e)
          with assms(2) s0 r0 s1 r1 nil s3 have eq: "res = Inl e" "w' = w3"
            by (simp_all add: revision_attempt_def and_then_def)
          from c3 Inl w2 cm have "between qid body w0 w3"
            by (auto simp: between_def intro: same_env_trans)
          moreover from c3 Inl f2 have "faults w \<noteq> []" by auto
          ultimately show ?thesis using eq c3 f2 by simp
        next
          case (Inr u3)
          with assms(2) s0 r0 s1 r1 nil s3
          have eq: "res = Inr (Response 404 (ErrorBody ''Quotation not found''))" "w' = w3"
            by (simp_all add: revision_attempt_def and_then_def ret_def)
          from c3 Inr w2 cm None
          have "answered qid body w0 (Response 404 (ErrorBody ''Quotation not found'')) w3"
            by (auto simp: answered_def idle_def intro: same_env_trans)
          with eq c3 f2 show ?thesis by simp
        qed
      next
        case (Some q)
        show ?thesis
        proof (cases "custom_id q")
          case None
          with Some have "drafted qid body w0 i rows = db w0" by (simp add: drafted_def)
          with found Some None have "found = [None]" by (simp add: select_custom_id_def)
          with assms(2) s0 r0 s1 r1 have eq: "res = Inl TypeError" "w' = w2"
            by (simp_all add: revision_attempt_def and_then_def throw_def)
          from Some None have "futile qid body w0" by (auto simp: futile_def)
          with eq rest2 f2 show ?thesis by simp
        next
          case cid: (Some cid)
          show ?thesis
          proof (cases "calcTotals (b_products body)")
            case (Inl e)
            with Some cid have "drafted qid body w0 i rows = db w0" by (simp add: drafted_def)
            with found Some cid have "found = [Some cid]" by (simp add: select_custom_id_def)
            with assms(2) s0 r0 s1 r1 Inl have eq: "res = Inl e" "w' = w2"
              by (simp_all add: revision_attempt_def and_then_def write_revision_def throw_def)
            from Some Inl have "futile qid body w0" by (auto simp: futile_def)
            with eq rest2 f2 show ?thesis by simp
          next
            case (Inr t)
            with Some cid have rv: "revisable qid body w0 q cid t" by (simp add: revisable_def)
            from found have "found = [Some ((nextCustomId ^^ i) cid)]"
              by (simp add: select_drafted [OF rv])
            with assms(2) s0 r0 s1 r1
            have wr: "write_revision qid body ((nextCustomId ^^ i) cid) w2 = (res, w')"
              by (simp add: revision_attempt_def and_then_def)
            from ir(3) have "punctual w0 \<longrightarrow> i = 0" by simp
            note c4 = write_revision_cases [OF rv in2 this wr]
            with f2 show ?thesis by (auto split: sum.splits)
          qed
        qed
      qed
    qed
  qed
qed

lemma retry_attempt_cases:
  assumes "between qid body w0 w" "executeWithRetry (revision_attempt qid body) n w = (res, w')"
  shows "(faults w = [] \<longrightarrow> faults w' = []) \<and>
         (case res of
            Inl e \<Rightarrow> between qid body w0 w' \<and>
                     (faults w \<noteq> [] \<or> snapshot w \<noteq> None \<or> futile qid body w0)
          | Inr r \<Rightarrow> answered qid body w0 r w')"
  using assms
proof (induction n arbitrary: w)
  case 0
  then show ?case by (simp add: revision_attempt_cases)
next
  case (Suc n)
  obtain r1 w1 where a: "revision_attempt qid body w = (r1, w1)"
    by (cases "revision_attempt qid body w")
  note c = revision_attempt_cases [OF Suc.prems(1) a]
  show ?case
  proof (cases r1)
    case (Inr r)
    with Suc.prems(2) a have "res = Inr r" "w' = w1" by simp_all
    with c Inr show ?thesis by simp
  next
    case (Inl e)
    with Suc.prems(2) a have rest: "executeWithRetry (revision_attempt qid body) n w1 = (res, w')"
      by simp
    from c Inl have b1: "between qid body w0 w1" by simp
    from Suc.IH [OF b1 rest] c Inl show ?thesis by (auto split: sum.splits)
  qed
qed

lemma idle_between: "idle w \<Longrightarrow> between qid body w w"
  by (simp add: between_def idle_def committed_def same_env_refl)

lemma idle_committed: "idle w \<Longrightarrow> committed w = db w"
  by (simp add: idle_def committed_def)

lemma not_futile: "revisable qid body w q cid t \<Longrightarrow> \<not> futile qid body w"
  by (auto simp: revisable_def futile_def)

text \<open>
  The revision writer, started with no transaction open: what it answers and what it
  leaves.
\<close>

lemma put_quotation_outcome:
  assumes "idle w" "put_quotation qid body w = (res, w')"
  shows "same_env w w' \<and> committed w' = (if succeeded res then db w' else db w) \<and>
         (status_code res \<noteq> None \<longrightarrow> idle w') \<and>
         (succeeded res \<longrightarrow>
            (\<exists>q cid t k ms.
               revisable qid body w q cid t \<and>
               res = Inr (Response 200 (Revised ((nextCustomId ^^ Suc k) cid))) \<and>
               length ms = item_count body \<and>
               (punctual w \<longrightarrow> k = 0 \<and> ms = replicate (item_count body) 0) \<and>
               db w' = revision_effect qid body w k ms)) \<and>
         (faults w = [] \<and> \<not> pool_down w \<and> qid \<noteq> [] \<longrightarrow>
            (case quotations (db w) qid of
               None \<Rightarrow> status_code res = Some 404
             | Some q \<Rightarrow> if futile qid body w then status_code res = Some 500 else succeeded res))"
proof (cases "qid = [] \<or> pool_down w")
  case True
  with assms(2) have "w' = w"
    "res = Inr (Response 400 (ErrorBody ''Missing quotation ID'')) \<or> res = Inl ConnectionError"
    by (cases "qid = []"; simp add: put_quotation_def connect_def)+
  with assms(1) True show ?thesis
    by (auto simp: succeeded_def status_code_def same_env_refl idle_committed)
next
  case False
  obtain r1 w1 where a: "executeWithRetry (revision_attempt qid body) 3 w = (r1, w1)"
    by (cases "executeWithRetry (revision_attempt qid body) 3 w")
  note c1 = retry_attempt_cases [OF idle_between [OF assms(1)] a]
  from assms(1) have sn: "snapshot w = None" by (simp add: idle_def)
  show ?thesis
  proof (cases r1)
    case (Inr r)
    with assms(2) a False have eq: "res = Inr r" "w' = w1"
      by (simp_all add: put_quotation_def connect_def)
    from c1 Inr have an: "answered qid body w r w1" by simp
    then have i1: "idle w1" "same_env w w1" by (simp_all add: answered_def)
    note dj = an [unfolded answered_def, THEN conjunct2, THEN conjunct2]
    from dj show ?thesis
    proof (elim disjE exE conjE)
      assume nf: "r = Response 404 (ErrorBody ''Quotation not found'')"
        "quotations (db w) qid = None" "db w1 = db w"
      with eq i1 show ?thesis
        by (simp add: succeeded_def status_code_def idle_committed)
    next
      fix q cid t k ms
      assume ok: "revisable qid body w q cid t"
        "r = Response 200 (Revised ((nextCustomId ^^ Suc k) cid))" "length ms = item_count body"
        "punctual w \<longrightarrow> k = 0 \<and> ms = replicate (item_count body) 0"
        "db w1 = revision_effect qid body w k ms"
      from ok(1) have "quotations (db w) qid \<noteq> None" "\<not> futile qid body w"
        using not_futile by (auto simp: revisable_def)
      moreover from ok have "\<exists>q cid t k ms.
               revisable qid body w q cid t \<and>
               res = Inr (Response 200 (Revised ((nextCustomId ^^ Suc k) cid))) \<and>
               length ms = item_count body \<and>
               (punctual w \<longrightarrow> k = 0 \<and> ms = replicate (item_count body) 0) \<and>
               db w' = revision_effect qid body w k ms"
        unfolding eq by blast
      ultimately show ?thesis using eq i1 ok(2)
        by (auto simp: succeeded_def status_code_def idle_committed)
    qed
  next
    case (Inl e)
    with c1 sn have b1: "between qid body w w1" and why: "faults w \<noteq> [] \<or> futile qid body w"
      and f1: "faults w = [] \<longrightarrow> faults w1 = []" by simp_all
    obtain r2 w2 where rb: "rollback_transaction w1 = (r2, w2)"
      by (cases "rollback_transaction w1")
    note c2 = rollback_cases [OF rb]
    from assms(2) a False Inl rb
    have eq: "w' = w2" "res = (case r2 of Inl e' \<Rightarrow> Inl e'
        | Inr u \<Rightarrow> Inr (Response 500 (ErrorBody ''Internal Server Error'')))"
      by (auto simp: put_quotation_def connect_def split: sum.splits)
    then have ns: "\<not> succeeded res" by (auto simp: succeeded_def split: sum.splits)
    from c2 b1 have cm: "committed w2 = db w" "same_env w w2"
      by (auto simp: between_def intro: same_env_trans)
    from c2 eq have id: "status_code res \<noteq> None \<longrightarrow> idle w2 \<and> status_code res = Some 500"
      by (auto simp: status_code_def idle_def split: sum.splits)
    from c2 f1 eq have calm: "faults w = [] \<longrightarrow> status_code res = Some 500"
      by (auto simp: status_code_def split: sum.splits)
    have "faults w = [] \<longrightarrow> (\<exists>q. quotations (db w) qid = Some q) \<and> futile qid body w"
      using why by (auto simp: futile_def)
    with ns cm id calm eq show ?thesis by (auto split: option.splits)
  qed
qed

lemma revision_effect_eq:
  assumes "revisable qid body w q cid t"
  shows "revision_effect qid body w k ms =
           (db w) \<lparr> quotations := (quotations (db w))
                     (qid \<mapsto> updated_row
                        (revision_params body (now_iso w) ((nextCustomId ^^ Suc k) cid) t)
                        (current_timestamp w) q),
                   quotation_products := items_after qid body (db w) ms \<rparr>"
  by (simp add: revision_effect_def drafted_eq [OF assms] draft_def)

lemma put_quotation_success:
  assumes "idle w" "succeeded (fst (put_quotation qid body w))"
  shows "\<exists>q cid t k ms.
           revisable qid body w q cid t \<and> length ms = item_count body \<and>
           (punctual w \<longrightarrow> k = 0 \<and> ms = replicate (item_count body) 0) \<and>
           idle (snd (put_quotation qid body w)) \<and>
           committed (snd (put_quotation qid body w)) = revision_effect qid body w k ms \<and>
           quotations (committed (snd (put_quotation qid body w))) qid =
             Some (updated_row
                     (revision_params body (now_iso w) ((nextCustomId ^^ Suc k) cid) t)
                     (current_timestamp w) q) \<and>
           quotation_products (committed (snd (put_quotation qid body w))) =
             items_after qid body (db w) ms"
proof -
  obtain res w' where p: "put_quotation qid body w = (res, w')"
    by (cases "put_quotation qid body w")
  with assms(2) have s: "succeeded res" by simp
  then have "status_code res \<noteq> None"
    by (auto simp: succeeded_def status_code_def split: sum.splits response.splits)
  then have sc: "status_code res \<noteq> None" .
  note o = put_quotation_outcome [OF assms(1) p]
  from o s sc have w': "idle w'" "committed w' = db w'" by simp_all
  from o s have "\<exists>q cid t k ms.
               revisable qid body w q cid t \<and>
               res = Inr (Response 200 (Revised ((nextCustomId ^^ Suc k) cid))) \<and>
               length ms = item_count body \<and>
               (punctual w \<longrightarrow> k = 0 \<and> ms = replicate (item_count body) 0) \<and>
               db w' = revision_effect qid body w k ms" by blast
  then obtain q cid t k ms where rv: "revisable qid body w q cid t"
    and ms: "length ms = item_count body"
      "punctual w \<longrightarrow> k = 0 \<and> ms = replicate (item_count body) 0"
    and d': "db w' = revision_effect qid body w k ms"
    by (elim exE conjE)
  from w' d' have "committed w' = revision_effect qid body w k ms" by simp
  with rv ms w'(1) p show ?thesis
    by (intro exI [of _ q] exI [of _ cid] exI [of _ t] exI [of _ k] exI [of _ ms])
      (simp add: revision_effect_eq [OF rv])
qed

text \<open>
  Claim C3: after a successful revision write the three approval flags of the quotation are
  all \<open>pending\<close>, whatever they were.
\<close>

theorem revision_resets_approvals:
  assumes "idle w" "succeeded (fst (put_quotation qid body w))"
  shows "\<exists>q. quotations (committed (snd (put_quotation qid body w))) qid = Some q \<and>
           storekeeperaccept q = ''pending'' \<and> supervisoraccept q = ''pending'' \<and>
           manageraccept q = ''pending''"
proof -
  from put_quotation_success [OF assms] obtain q cid t k where
    "quotations (committed (snd (put_quotation qid body w))) qid =
       Some (updated_row (revision_params body (now_iso w) ((nextCustomId ^^ Suc k) cid) t)
               (current_timestamp w) q)" by blast
  then show ?thesis by (simp add: updated_row_def)
qed

theorem revision_resets_approvals_witness:
  "idle (example_world []) \<and>
   succeeded (fst (put_quotation ''7''
      (example_body (Some [Some (example_item (JString ''10'') (JNumber (Fin 3 0)))]) JUndefined)
      (example_world []))) \<and>
   manageraccept example_quotation = ''rejected'' \<and>
   (\<exists>q. quotations (committed (snd (put_quotation ''7''
            (example_body (Some [Some (example_item (JString ''10'') (JNumber (Fin 3 0)))])
               JUndefined)
            (example_world [])))) ''7'' = Some q \<and>
      storekeeperaccept q = ''pending'' \<and> supervisoraccept q = ''pending'' \<and>
      manageraccept q = ''pending'')"
proof -
  have h1: "idle (example_world [])" by code_simp
  have h2: "succeeded (fst (put_quotation ''7''
      (example_body (Some [Some (example_item (JString ''10'') (JNumber (Fin 3 0)))]) JUndefined)
      (example_world [])))" by code_simp
  have h3: "manageraccept example_quotation = ''rejected''" by code_simp
  from revision_resets_approvals [OF h1 h2] h1 h2 h3 show ?thesis by blast
qed


text \<open>
  Claim C4, as the code has it. Started with no transaction open, the revision writer
  leaves the committed contents as it found them whenever it does not answer 200 (not
  found, internal error, an exception), and whenever it answers at all it leaves no
  transaction open. When it answers 200 the quotation existed, no line item was \<open>null\<close>,
  and header and line items are committed together: the committed contents are those of a revision, with the header update of \<open>k\<close> earlier
  attempts in them and some inserts repeated if statements timed out, and exactly those
  of one revision if no statement was answered late.
\<close>

theorem revision_all_or_nothing:
  assumes "idle w"
  shows "(\<not> succeeded (fst (put_quotation qid body w)) \<longrightarrow>
            committed (snd (put_quotation qid body w)) = db w) \<and>
         (status_code (fst (put_quotation qid body w)) \<noteq> None \<longrightarrow>
            idle (snd (put_quotation qid body w))) \<and>
         (succeeded (fst (put_quotation qid body w)) \<longrightarrow>
            quotations (db w) qid \<noteq> None \<and>
            (\<exists>t. calcTotals (b_products body) = Inr t) \<and>
            (\<exists>k ms. length ms = item_count body \<and>
               committed (snd (put_quotation qid body w)) = revision_effect qid body w k ms \<and>
               (punctual w \<longrightarrow> k = 0 \<and> ms = replicate (item_count body) 0)))"
proof (intro conjI impI)
  obtain res w' where p: "put_quotation qid body w = (res, w')"
    by (cases "put_quotation qid body w")
  note o = put_quotation_outcome [OF assms p]
  {
    assume "\<not> succeeded (fst (put_quotation qid body w))"
    with o p show "committed (snd (put_quotation qid body w)) = db w" by simp
  }
  {
    assume "status_code (fst (put_quotation qid body w)) \<noteq> None"
    with o p show "idle (snd (put_quotation qid body w))" by simp
  }
  {
    assume s: "succeeded (fst (put_quotation qid body w))"
    note e = put_quotation_success [OF assms s]
    from e show "quotations (db w) qid \<noteq> None" by (auto simp: revisable_def)
    from e show "\<exists>t. calcTotals (b_products body) = Inr t" by (auto simp: revisable_def)
    from e
    show "\<exists>k ms. length ms = item_count body \<and>
               committed (snd (put_quotation qid body w)) = revision_effect qid body w k ms \<and>
               (punctual w \<longrightarrow> k = 0 \<and> ms = replicate (item_count body) 0)"
      by blast
  }
qed

text \<open>
  The insert of the line item is answered with an error: internal error, and header and
  line items read back are those of before the write. No statement fails: the committed
  contents are those of one revision.
\<close>

theorem revision_all_or_nothing_witness:
  "idle (example_world [Answers 0, Answers 0, Answers 0, Answers 0, Fails]) \<and>
   status_code (fst (put_quotation ''7''
      (example_body (Some [Some (example_item (JString ''10'') (JNumber (Fin 3 0)))]) JUndefined)
      (example_world [Answers 0, Answers 0, Answers 0, Answers 0, Fails]))) = Some 500 \<and>
   idle (snd (put_quotation ''7''
      (example_body (Some [Some (example_item (JString ''10'') (JNumber (Fin 3 0)))]) JUndefined)
      (example_world [Answers 0, Answers 0, Answers 0, Answers 0, Fails]))) \<and>
   quotations (committed (snd (put_quotation ''7''
      (example_body (Some [Some (example_item (JString ''10'') (JNumber (Fin 3 0)))]) JUndefined)
      (example_world [Answers 0, Answers 0, Answers 0, Answers 0, Fails])))) ''7'' =
     Some example_quotation \<and>
   quotation_products (committed (snd (put_quotation ''7''
      (example_body (Some [Some (example_item (JString ''10'') (JNumber (Fin 3 0)))]) JUndefined)
      (example_world [Answers 0, Answers 0, Answers 0, Answers 0, Fails])))) =
     [example_item_row] \<and>
   idle (example_world []) \<and> punctual (example_world []) \<and>
   succeeded (fst (put_quotation ''7''
      (example_body (Some [Some (example_item (JString ''10'') (JNumber (Fin 3 0)))]) JUndefined)
      (example_world []))) \<and>
   committed (snd (put_quotation ''7''
      (example_body (Some [Some (example_item (JString ''10'') (JNumber (Fin 3 0)))]) JUndefined)
      (example_world []))) =
     revision_effect ''7''
       (example_body (Some [Some (example_item (JString ''10'') (JNumber (Fin 3 0)))]) JUndefined)
       (example_world []) 0 [0]"
proof -
  let ?w = "example_world [Answers 0, Answers 0, Answers 0, Answers 0, Fails]"
  let ?b = "example_body (Some [Some (example_item (JString ''10'') (JNumber (Fin 3 0)))]) JUndefined"
  have h1: "idle ?w" by code_simp
  have h2: "status_code (fst (put_quotation ''7'' ?b ?w)) = Some 500" by code_simp
  have h3: "\<not> succeeded (fst (put_quotation ''7'' ?b ?w))" by code_simp
  note t = revision_all_or_nothing [OF h1, of "''7''" ?b]
  from t h3 have "committed (snd (put_quotation ''7'' ?b ?w)) = db ?w" by simp
  then have c: "committed (snd (put_quotation ''7'' ?b ?w)) = example_database"
    by (simp add: example_world_def)
  from t h2 have i: "idle (snd (put_quotation ''7'' ?b ?w))" by simp
  let ?v = "example_world []"
  have g1: "idle ?v" "punctual ?v" by code_simp+
  have g2: "succeeded (fst (put_quotation ''7'' ?b ?v))" by code_simp
  have g3: "item_count ?b = 1" by code_simp
  from revision_all_or_nothing [OF g1(1), of "''7''" ?b] g1(2) g2 g3
  have d: "committed (snd (put_quotation ''7'' ?b ?v)) = revision_effect ''7'' ?b ?v 0 [0]"
    by auto
  from h1 h2 i c g1 g2 d show ?thesis by (simp add: example_database_def)
qed

text \<open>
  The fifth statement, the insert of the line item, is answered after twenty seconds: the
  time-out rejects at ten, the retry inserts the item again and the writer answers 200.
  A step of the write has failed, and the header read back has a new \<open>custom_id\<close> and new
  totals; the line item is stored twice.
\<close>

theorem revision_despite_failed_step:
  "log (snd (put_quotation ''7''
      (example_body (Some [Some (example_item (JString ''10'') (JNumber (Fin 3 0)))]) JUndefined)
      (example_world [Answers 0, Answers 0, Answers 0, Answers 0, Answers 20000]))) =
     [Begin, SelectCustomId ''7'', UpdateQuotation ''7'', DeleteProducts ''7'',
      InsertProduct ''7'', InsertProduct ''7'', Commit] \<and>
   status_code (fst (put_quotation ''7''
      (example_body (Some [Some (example_item (JString ''10'') (JNumber (Fin 3 0)))]) JUndefined)
      (example_world [Answers 0, Answers 0, Answers 0, Answers 0, Answers 20000]))) = Some 200 \<and>
   custom_id example_quotation = Some ''Q-7 Rev3'' \<and>
   total_price example_quotation = Fin 25 2 \<and>
   map_option custom_id (quotations (committed (snd (put_quotation ''7''
      (example_body (Some [Some (example_item (JString ''10'') (JNumber (Fin 3 0)))]) JUndefined)
      (example_world [Answers 0, Answers 0, Answers 0, Answers 0, Answers 20000])))) ''7'') =
     Some (Some ''Q-7 Rev4'') \<and>
   map_option total_price (quotations (committed (snd (put_quotation ''7''
      (example_body (Some [Some (example_item (JString ''10'') (JNumber (Fin 3 0)))]) JUndefined)
      (example_world [Answers 0, Answers 0, Answers 0, Answers 0, Answers 20000])))) ''7'') =
     Some (Fin 15 1) \<and>
   quotation_products (committed (snd (put_quotation ''7''
      (example_body (Some [Some (example_item (JString ''10'') (JNumber (Fin 3 0)))]) JUndefined)
      (example_world [Answers 0, Answers 0, Answers 0, Answers 0, Answers 20000])))) =
     [inserted_row ''7'' (example_item (JString ''10'') (JNumber (Fin 3 0))),
      inserted_row ''7'' (example_item (JString ''10'') (JNumber (Fin 3 0)))]"
  by code_simp

lemma status_of_delivered:
  "status_of body = JString ''delivered'' \<longleftrightarrow> b_status body = JString ''delivered''"
  by (simp add: status_of_def)

text \<open>
  Claim C5: a successful revision write sets \<open>actual_delivery_date\<close> to the current instant
  when the incoming status is the string \<open>delivered\<close>, and leaves the stored value as it was
  for every other status; so a value once set is not cleared.
\<close>

theorem delivery_date_set_or_kept:
  assumes "idle w" "succeeded (fst (put_quotation qid body w))"
  shows "\<exists>q q'. quotations (db w) qid = Some q \<and>
           quotations (committed (snd (put_quotation qid body w))) qid = Some q' \<and>
           actual_delivery_date q' =
             (if b_status body = JString ''delivered'' then JString (now_iso w)
              else actual_delivery_date q) \<and>
           (actual_delivery_date q \<noteq> JNull \<longrightarrow> actual_delivery_date q' \<noteq> JNull)"
proof -
  from put_quotation_success [OF assms] obtain q cid t k
    where rv: "revisable qid body w q cid t"
    and q': "quotations (committed (snd (put_quotation qid body w))) qid =
       Some (updated_row (revision_params body (now_iso w) ((nextCustomId ^^ Suc k) cid) t)
               (current_timestamp w) q)" by blast
  from rv have q: "quotations (db w) qid = Some q" by (simp add: revisable_def)
  have "actual_delivery_date
          (updated_row (revision_params body (now_iso w) ((nextCustomId ^^ Suc k) cid) t)
               (current_timestamp w) q) =
        (if b_status body = JString ''delivered'' then JString (now_iso w)
         else actual_delivery_date q)"
    by (simp add: updated_row_def revision_params_def actualDeliveryDate_def
        status_of_delivered pg_param_def coalesce_def)
  with q q' show ?thesis by auto
qed

text \<open>Status \<open>Delivered\<close> keeps the stored date \<open>d0\<close>; status \<open>delivered\<close> sets it to now.\<close>

theorem delivery_date_set_or_kept_witness:
  "idle (example_world []) \<and>
   succeeded (fst (put_quotation ''7'' (example_body None (JString ''Delivered''))
      (example_world []))) \<and>
   succeeded (fst (put_quotation ''7'' (example_body None (JString ''delivered''))
      (example_world []))) \<and>
   (\<exists>q. quotations (committed (snd (put_quotation ''7'' (example_body None (JString ''Delivered''))
            (example_world [])))) ''7'' = Some q \<and> actual_delivery_date q = JString ''d0'') \<and>
   (\<exists>q. quotations (committed (snd (put_quotation ''7'' (example_body None (JString ''delivered''))
            (example_world [])))) ''7'' = Some q \<and> actual_delivery_date q = JString ''n1'')"
proof -
  let ?w = "example_world []"
  have h1: "idle ?w" by code_simp
  have h2: "succeeded (fst (put_quotation ''7'' (example_body None (JString ''Delivered'')) ?w))"
    by code_simp
  have h3: "succeeded (fst (put_quotation ''7'' (example_body None (JString ''delivered'')) ?w))"
    by code_simp
  have q: "quotations (db ?w) ''7'' = Some example_quotation"
    by (simp add: example_world_def example_database_def)
  have d: "actual_delivery_date example_quotation = JString ''d0''" "now_iso ?w = ''n1''"
    by (simp_all add: example_quotation_def example_world_def)
  from delivery_date_set_or_kept [OF h1 h2] q d
  have a: "\<exists>q. quotations (committed (snd (put_quotation ''7''
      (example_body None (JString ''Delivered'')) ?w))) ''7'' = Some q \<and>
      actual_delivery_date q = JString ''d0''"
    by (auto simp: example_body_def)
  from delivery_date_set_or_kept [OF h1 h3] q d
  have b: "\<exists>q. quotations (committed (snd (put_quotation ''7''
      (example_body None (JString ''delivered'')) ?w))) ''7'' = Some q \<and>
      actual_delivery_date q = JString ''n1''"
    by (auto simp: example_body_def)
  from h1 h2 h3 a b show ?thesis by blast
qed

lemma calcTotals_empty:
  "calcTotals (Some []) = Inr \<lparr> totalPrice = zero, totalVat = zero, totalSubtotal = zero \<rparr>"
  by (simp add: calcTotals_def)

lemma empty_products_effect:
  assumes "idle w" "succeeded (fst (put_quotation qid body w))" "b_products body = Some []"
  shows "\<exists>q'. quotations (committed (snd (put_quotation qid body w))) qid = Some q' \<and>
           total_price q' = zero \<and> total_vat q' = zero \<and> total_subtotal q' = zero \<and>
           quotation_products (committed (snd (put_quotation qid body w))) =
             quotation_products (db w)"
proof -
  from put_quotation_success [OF assms(1,2)] obtain q cid t k ms where
    rv: "revisable qid body w q cid t"
    and q': "quotations (committed (snd (put_quotation qid body w))) qid =
       Some (updated_row (revision_params body (now_iso w) ((nextCustomId ^^ Suc k) cid) t)
               (current_timestamp w) q)"
    and items: "quotation_products (committed (snd (put_quotation qid body w))) =
       items_after qid body (db w) ms" by blast
  from rv assms(3) have "t = \<lparr> totalPrice = zero, totalVat = zero, totalSubtotal = zero \<rparr>"
    by (simp add: revisable_def calcTotals_empty)
  moreover from assms(3) have "items_after qid body (db w) ms = quotation_products (db w)"
    by (simp add: items_after_def)
  ultimately show ?thesis using q' items
    by (simp add: updated_row_def revision_params_def)
qed


text \<open>
  Claim C10: a successful revision write whose \<open>products\<close> field is the empty list sets the
  three totals of the header to 0 and leaves the stored line items as they were; in the
  example database the stored items then still add up to 115 under a header total of 0.
\<close>

theorem empty_products_zero_totals:
  "(idle w \<and> succeeded (fst (put_quotation qid body w)) \<and> b_products body = Some [] \<longrightarrow>
      (\<exists>q'. quotations (committed (snd (put_quotation qid body w))) qid = Some q' \<and>
         total_price q' = zero \<and> total_vat q' = zero \<and> total_subtotal q' = zero \<and>
         quotation_products (committed (snd (put_quotation qid body w))) =
           quotation_products (db w))) \<and>
   (\<exists>w0 qid0 body0 q0.
      idle w0 \<and> succeeded (fst (put_quotation qid0 body0 w0)) \<and> b_products body0 = Some [] \<and>
      quotations (committed (snd (put_quotation qid0 body0 w0))) qid0 = Some q0 \<and>
      total_subtotal q0 \<noteq> stored_subtotal qid0 (committed (snd (put_quotation qid0 body0 w0))))"
proof (intro conjI impI)
  assume "idle w \<and> succeeded (fst (put_quotation qid body w)) \<and> b_products body = Some []"
  then show "\<exists>q'. quotations (committed (snd (put_quotation qid body w))) qid = Some q' \<and>
         total_price q' = zero \<and> total_vat q' = zero \<and> total_subtotal q' = zero \<and>
         quotation_products (committed (snd (put_quotation qid body w))) =
           quotation_products (db w)"
    by (intro empty_products_effect) auto
next
  let ?w = "example_world []" and ?b = "example_body (Some []) JUndefined"
  let ?c = "committed (snd (put_quotation ''7'' ?b ?w))"
  have h1: "idle ?w" by code_simp
  have h2: "succeeded (fst (put_quotation ''7'' ?b ?w))" by code_simp
  have h3: "b_products ?b = Some []" by (simp add: example_body_def)
  from empty_products_effect [OF h1 h2 h3] obtain q' where
    q': "quotations ?c ''7'' = Some q'" "total_subtotal q' = zero"
    and items: "quotation_products ?c = quotation_products (db ?w)" by blast
  have "stored_subtotal ''7'' ?c = stored_subtotal ''7'' (db ?w)"
    by (simp add: stored_subtotal_def select_products_def items)
  also have "\<dots> = Fin 115 0" by code_simp
  finally have "total_subtotal q' \<noteq> stored_subtotal ''7'' ?c"
    using q'(2) by (simp add: zero_def)
  with h1 h2 h3 q'(1) show "\<exists>w0 qid0 body0 q0.
      idle w0 \<and> succeeded (fst (put_quotation qid0 body0 w0)) \<and> b_products body0 = Some [] \<and>
      quotations (committed (snd (put_quotation qid0 body0 w0))) qid0 = Some q0 \<and>
      total_subtotal q0 \<noteq> stored_subtotal qid0 (committed (snd (put_quotation qid0 body0 w0)))"
    by blast
qed

theorem empty_products_zero_totals_witness:
  "idle (example_world []) \<and>
   succeeded (fst (put_quotation ''7'' (example_body (Some []) JUndefined) (example_world []))) \<and>
   b_products (example_body (Some []) JUndefined) = Some [] \<and>
   total_subtotal example_quotation = Fin 115 0 \<and>
   (\<exists>q'. quotations (committed (snd (put_quotation ''7'' (example_body (Some []) JUndefined)
              (example_world [])))) ''7'' = Some q' \<and>
      total_price q' = Fin 0 0 \<and> total_vat q' = Fin 0 0 \<and> total_subtotal q' = Fin 0 0) \<and>
   quotation_products (committed (snd (put_quotation ''7'' (example_body (Some []) JUndefined)
              (example_world [])))) = [example_item_row]"
proof -
  let ?w = "example_world []" and ?b = "example_body (Some []) JUndefined"
  have h1: "idle ?w" by code_simp
  have h2: "succeeded (fst (put_quotation ''7'' ?b ?w))" by code_simp
  have h3: "b_products ?b = Some []" by (simp add: example_body_def)
  have h4: "total_subtotal example_quotation = Fin 115 0" by (simp add: example_quotation_def)
  have items: "quotation_products (db ?w) = [example_item_row]"
    by (simp add: example_world_def example_database_def)
  from empty_products_zero_totals [of ?w "''7''" ?b] h1 h2 h3
  have "\<exists>q'. quotations (committed (snd (put_quotation ''7'' ?b ?w))) ''7'' = Some q' \<and>
         total_price q' = zero \<and> total_vat q' = zero \<and> total_subtotal q' = zero \<and>
         quotation_products (committed (snd (put_quotation ''7'' ?b ?w))) =
           quotation_products (db ?w)" by blast
  with h1 h2 h3 h4 items show ?thesis by (auto simp: zero_def)
qed

section \<open>Statements outside a transaction\<close>

lemma attempt_idle:
  assumes "idle w" "withTimeout (query st run) 10000 w = (res, w')"
  shows "idle w' \<and> same_env w w' \<and> faults w' = tl (faults w) \<and> log w' = log w @ [st] \<and>
         (if in_time (upcoming w)
          then res = Inr (fst (run (db w))) \<and> db w' = snd (run (db w))
          else (\<exists>e. res = Inl e) \<and> faults w \<noteq> [] \<and>
               (db w' = db w \<or> db w' = snd (run (db w)) \<and> \<not> punctual w))"
proof -
  note c = attempt_cases [OF assms(2)]
  show ?thesis
  proof (cases "upcoming w")
    case Fails
    then have "faults w \<noteq> []" by (auto simp: upcoming_def)
    with c Fails assms(1) show ?thesis by (auto simp: idle_def in_time_def)
  next
    case (Answers t)
    show ?thesis
    proof (cases "t < 10000")
      case True
      with c Answers assms(1) show ?thesis by (auto simp: idle_def in_time_def)
    next
      case False
      with Answers have "\<not> punctual w" by (rule late_not_punctual)
      moreover from False Answers have "faults w \<noteq> []" by (auto simp: upcoming_def)
      ultimately show ?thesis using c Answers assms(1) False
        by (auto simp: idle_def in_time_def)
    qed
  qed
qed

lemma retry_idle:
  assumes "idle w" "executeWithRetry (withTimeout (query st run) 10000) n w = (res, w')"
  shows "idle w' \<and> same_env w w' \<and> (faults w = [] \<longrightarrow> faults w' = []) \<and>
         (punctual w \<longrightarrow> punctual w') \<and>
         (\<exists>k. log w' = log w @ replicate (Suc k) st) \<and>
         (\<exists>j. (punctual w \<longrightarrow> j = 0) \<and>
            (if all_fail (Suc n) w
             then (\<exists>e. res = Inl e) \<and> db w' = ((\<lambda>d. snd (run d)) ^^ j) (db w)
             else res = Inr (fst (run (((\<lambda>d. snd (run d)) ^^ j) (db w)))) \<and>
                  db w' = snd (run (((\<lambda>d. snd (run d)) ^^ j) (db w))) \<and>
                  db (last_attempt (withTimeout (query st run) 10000) n w) =
                    ((\<lambda>d. snd (run d)) ^^ j) (db w)))"
  using assms
proof (induction n arbitrary: w)
  case 0
  then have a: "withTimeout (query st run) 10000 w = (res, w')" by simp
  note c = attempt_idle [OF "0.prems"(1) a]
  from c have af: "all_fail (Suc 0) w \<longleftrightarrow> \<not> in_time (upcoming w)"
    by (auto simp: all_fail_step [of w' w 0] all_fail_0 split: if_splits)
  from c have lg: "\<exists>k. log w' = log w @ replicate (Suc k) st" by (intro exI [of _ 0]) simp
  have "\<exists>j. (punctual w \<longrightarrow> j = 0) \<and>
            (if all_fail (Suc 0) w
             then (\<exists>e. res = Inl e) \<and> db w' = ((\<lambda>d. snd (run d)) ^^ j) (db w)
             else res = Inr (fst (run (((\<lambda>d. snd (run d)) ^^ j) (db w)))) \<and>
                  db w' = snd (run (((\<lambda>d. snd (run d)) ^^ j) (db w))) \<and>
                  db (last_attempt (withTimeout (query st run) 10000) 0 w) =
                    ((\<lambda>d. snd (run d)) ^^ j) (db w))"
  proof (cases "in_time (upcoming w)")
    case True
    with c af show ?thesis by (intro exI [of _ 0]) simp
  next
    case False
    with c consider "db w' = db w" | "db w' = snd (run (db w))" "\<not> punctual w" by auto
    then show ?thesis
    proof cases
      case 1
      with c af False show ?thesis by (intro exI [of _ 0]) simp
    next
      case 2
      with c af False show ?thesis by (intro exI [of _ 1]) simp
    qed
  qed
  with c lg show ?case by (auto intro: punctual_tl)
next
  case (Suc n)
  let ?fn = "withTimeout (query st run) 10000"
  obtain r1 w1 where a: "?fn w = (r1, w1)" by (cases "?fn w")
  note c = attempt_idle [OF Suc.prems(1) a]
  show ?case
  proof (cases "in_time (upcoming w)")
    case True
    with c have r1: "r1 = Inr (fst (run (db w)))" and d1: "db w1 = snd (run (db w))" by simp_all
    with Suc.prems(2) a have eq: "res = r1" "w' = w1" by simp_all
    from True c have af: "\<not> all_fail (Suc (Suc n)) w"
      by (simp add: all_fail_step [of w1 w "Suc n"])
    from a r1 have la: "last_attempt ?fn (Suc n) w = w" by simp
    from c eq have lg: "\<exists>k. log w' = log w @ replicate (Suc k) st" by (intro exI [of _ 0]) simp
    have "\<exists>j. (punctual w \<longrightarrow> j = 0) \<and>
            res = Inr (fst (run (((\<lambda>d. snd (run d)) ^^ j) (db w)))) \<and>
            db w' = snd (run (((\<lambda>d. snd (run d)) ^^ j) (db w))) \<and>
            db (last_attempt ?fn (Suc n) w) = ((\<lambda>d. snd (run d)) ^^ j) (db w)"
      using eq r1 d1 la by (intro exI [of _ 0]) simp
    with c eq lg af show ?thesis by (auto intro: punctual_tl)
  next
    case False
    with c obtain e where r1: "r1 = Inl e" and ne: "faults w \<noteq> []" by auto
    with Suc.prems(2) a have rest: "executeWithRetry ?fn n w1 = (res, w')" by simp
    from c have i1: "idle w1" by simp
    note ih = Suc.IH [OF i1 rest]
    from False c ne have af: "all_fail (Suc (Suc n)) w \<longleftrightarrow> all_fail (Suc n) w1"
      by (simp add: all_fail_step [of w1 w "Suc n"])
    from a r1 have la: "last_attempt ?fn (Suc n) w = last_attempt ?fn n w1" by simp
    from ih obtain k where "log w' = log w1 @ replicate (Suc k) st" by blast
    with c have "log w' = log w @ replicate (Suc (Suc k)) st"
      by (simp add: replicate_append_same)
    then have lg: "\<exists>k. log w' = log w @ replicate (Suc k) st" by blast
    from c have p1: "punctual w \<longrightarrow> punctual w1" by (auto intro: punctual_tl)
    from ih obtain j1 where j1: "punctual w1 \<longrightarrow> j1 = 0"
      "if all_fail (Suc n) w1
       then (\<exists>e. res = Inl e) \<and> db w' = ((\<lambda>d. snd (run d)) ^^ j1) (db w1)
       else res = Inr (fst (run (((\<lambda>d. snd (run d)) ^^ j1) (db w1)))) \<and>
            db w' = snd (run (((\<lambda>d. snd (run d)) ^^ j1) (db w1))) \<and>
            db (last_attempt ?fn n w1) = ((\<lambda>d. snd (run d)) ^^ j1) (db w1)"
      by blast
    from False c consider "db w1 = db w" | "db w1 = snd (run (db w))" "\<not> punctual w" by auto
    then have "\<exists>j. (punctual w \<longrightarrow> j = 0) \<and>
        ((\<lambda>d. snd (run d)) ^^ j1) (db w1) = ((\<lambda>d. snd (run d)) ^^ j) (db w)"
    proof cases
      case 1
      with j1(1) p1 show ?thesis by (intro exI [of _ j1]) simp
    next
      case 2
      then show ?thesis
        using funpow_swap1 [of "\<lambda>d. snd (run d)" j1 "db w"]
        by (intro exI [of _ "Suc j1"]) simp
    qed
    then obtain j where j: "punctual w \<longrightarrow> j = 0"
      "((\<lambda>d. snd (run d)) ^^ j1) (db w1) = ((\<lambda>d. snd (run d)) ^^ j) (db w)" by blast
    have "\<exists>j. (punctual w \<longrightarrow> j = 0) \<and>
            (if all_fail (Suc (Suc n)) w
             then (\<exists>e. res = Inl e) \<and> db w' = ((\<lambda>d. snd (run d)) ^^ j) (db w)
             else res = Inr (fst (run (((\<lambda>d. snd (run d)) ^^ j) (db w)))) \<and>
                  db w' = snd (run (((\<lambda>d. snd (run d)) ^^ j) (db w))) \<and>
                  db (last_attempt ?fn (Suc n) w) = ((\<lambda>d. snd (run d)) ^^ j) (db w))"
      using j1(2) j unfolding af la by (intro exI [of _ j]) simp
    moreover from ih c have "idle w'" "same_env w w'" "faults w = [] \<longrightarrow> faults w' = []"
      "punctual w \<longrightarrow> punctual w'"
      using p1 ne by (auto intro: same_env_trans)
    ultimately show ?thesis using lg by blast
  qed
qed

text \<open>A statement that only reads, and one that settles what a first run has left.\<close>

lemma retry_idle_read:
  assumes "idle w" "executeWithRetry (withTimeout (query st (\<lambda>d. (f d, d))) 10000) n w = (res, w')"
  shows "idle w' \<and> same_env w w' \<and> (faults w = [] \<longrightarrow> faults w' = []) \<and>
         (punctual w \<longrightarrow> punctual w') \<and> db w' = db w \<and>
         (\<exists>k. log w' = log w @ replicate (Suc k) st) \<and>
         (if all_fail (Suc n) w then (\<exists>e. res = Inl e) else res = Inr (f (db w)))"
  using retry_idle [OF assms] by (auto simp: funpow_read split: if_splits)

lemma funpow_stable:
  assumes "\<And>d. g (g d) = g d"
  shows "(g ^^ j) d = (if j = 0 then d else g d)"
  by (induction j) (simp_all add: assms)

lemma retry_idle_stable:
  assumes "idle w" "executeWithRetry (withTimeout (query st run) 10000) n w = (res, w')"
    and "\<And>d. snd (run (snd (run d))) = snd (run d)" "\<And>d. fst (run (snd (run d))) = fst (run d)"
  shows "idle w' \<and> same_env w w' \<and> (faults w = [] \<longrightarrow> faults w' = []) \<and>
         (punctual w \<longrightarrow> punctual w') \<and>
         (\<exists>k. log w' = log w @ replicate (Suc k) st) \<and>
         (if all_fail (Suc n) w
          then (\<exists>e. res = Inl e) \<and> (db w' = db w \<or> db w' = snd (run (db w)))
          else res = Inr (fst (run (db w))) \<and> db w' = snd (run (db w)))"
proof -
  have st: "((\<lambda>d. snd (run d)) ^^ j) d = (if j = 0 then d else snd (run d))" for j d
    by (rule funpow_stable) (rule assms(3))
  from retry_idle [OF assms(1,2)] show ?thesis
    by (auto simp: st assms(3,4) split: if_splits)
qed

section \<open>The aggregate reader\<close>


lemma get_quotation_not_found:
  assumes "idle w" "qid \<noteq> []" "select_header qid (db w) = []"
  shows "status_code (fst (get_quotation qid w)) = Some (if all_fail 4 w then 500 else 404) \<and>
         (\<exists>k. log (snd (get_quotation qid w)) = log w @ replicate (Suc k) (SelectHeader qid))"
proof -
  let ?h = "executeWithRetry
     (withTimeout (query (SelectHeader qid) (\<lambda>d. (select_header qid d, d))) 10000) 3"
  obtain r1 w1 where s1: "?h w = (r1, w1)" by (cases "?h w")
  note c1 = retry_idle_read [OF assms(1) s1]
  show ?thesis
  proof (cases "all_fail 4 w")
    case True
    with c1 obtain e where "r1 = Inl e" by auto
    with s1 assms(2) have "get_quotation qid w =
        (Inr (Response 500 (ErrorBody ''Internal Server Error'')), w1)"
      by (simp add: get_quotation_def)
    with c1 True show ?thesis by (simp add: status_code_def)
  next
    case False
    with c1 assms(3) have "r1 = Inr []" by simp
    with s1 assms(2) have "get_quotation qid w =
        (Inr (Response 404 (ErrorBody ''Quotation not found'')), w1)"
      by (simp add: get_quotation_def)
    with c1 False show ?thesis by (simp add: status_code_def)
  qed
qed




section \<open>The export marker\<close>

lemma mark_exported_again:
  "snd (mark_exported qid ts (snd (mark_exported qid ts d))) = snd (mark_exported qid ts d)"
  "fst (mark_exported qid ts (snd (mark_exported qid ts d))) = fst (mark_exported qid ts d)"
  by (simp_all add: mark_exported_def split: option.splits)

lemma export_outcome:
  assumes "idle w" "qid \<noteq> []" "\<not> pool_down w"
  shows "idle (snd (export_quotation qid w)) \<and> \<not> pool_down (snd (export_quotation qid w)) \<and>
         (if all_fail 4 w
          then status_code (fst (export_quotation qid w)) = Some 500
          else case quotations (db w) qid of
                 None \<Rightarrow>
                   status_code (fst (export_quotation qid w)) = Some 404 \<and>
                   db (snd (export_quotation qid w)) = db w
               | Some q \<Rightarrow>
                   fst (export_quotation qid w) = Inr (Response 200 (Exported (qid, True))) \<and>
                   db (snd (export_quotation qid w)) =
                     (db w) \<lparr> quotations := (quotations (db w))
                        (qid \<mapsto> q \<lparr> exported := True, updated_at := current_timestamp w \<rparr>) \<rparr>)"
proof -
  let ?u = "executeWithRetry
     (withTimeout (query (UpdateExported qid) (mark_exported qid (current_timestamp w))) 10000) 3"
  obtain r1 w1 where s1: "?u w = (r1, w1)" by (cases "?u w")
  note c1 = retry_idle_stable [OF assms(1) s1 mark_exported_again]
  from c1 assms(3) have up: "\<not> pool_down w1" by (simp add: same_env_def)
  show ?thesis
  proof (cases "all_fail 4 w")
    case True
    with c1 obtain e where "r1 = Inl e" by auto
    with s1 assms(2,3) have "export_quotation qid w =
        (Inr (Response 500 (ErrorBody ''Internal Server Error'')), w1)"
      by (simp add: export_quotation_def connect_def)
    with c1 True up show ?thesis by (simp add: status_code_def)
  next
    case False
    with c1 have r1: "r1 = Inr (fst (mark_exported qid (current_timestamp w) (db w)))"
      and d1: "db w1 = snd (mark_exported qid (current_timestamp w) (db w))" by simp_all
    show ?thesis
    proof (cases "quotations (db w) qid")
      case None
      with r1 d1 have "r1 = Inr []" "db w1 = db w" by (simp_all add: mark_exported_def)
      with s1 assms(2,3) have "export_quotation qid w =
          (Inr (Response 404 (ErrorBody ''Quotation not found'')), w1)" "db w1 = db w"
        by (simp_all add: export_quotation_def connect_def)
      with c1 False None up show ?thesis by (simp add: status_code_def)
    next
      case (Some q)
      with r1 d1 have r1': "r1 = Inr [(qid, True)]"
        and d1': "db w1 = (db w) \<lparr> quotations := (quotations (db w))
                        (qid \<mapsto> q \<lparr> exported := True, updated_at := current_timestamp w \<rparr>) \<rparr>"
        by (simp_all add: mark_exported_def)
      from r1' s1 assms(2,3) have "export_quotation qid w =
          (Inr (Response 200 (Exported (qid, True))), w1)"
        by (simp add: export_quotation_def connect_def)
      with c1 False Some d1' up show ?thesis by simp
    qed
  qed
qed

text \<open>
  Claim C7: with a connection from the pool, and unless the statement fails at all four
  attempts, marking an existing quotation
  answers 200, sets \<open>exported\<close> to true and \<open>updated_at\<close> to the current time and changes
  nothing else; for a quotation that is already exported this leaves the flag as it is, so
  marking twice succeeds twice with the same flag; for an identifier with no row the answer
  is not found and nothing changes.
\<close>

theorem export_marker:
  assumes "idle w" "qid \<noteq> []" "\<not> pool_down w" "\<not> all_fail 4 w"
  shows "idle (snd (export_quotation qid w)) \<and> \<not> pool_down (snd (export_quotation qid w)) \<and>
         (quotations (db w) qid = None \<longrightarrow>
            status_code (fst (export_quotation qid w)) = Some 404 \<and>
            db (snd (export_quotation qid w)) = db w) \<and>
         (\<forall>q. quotations (db w) qid = Some q \<longrightarrow>
            fst (export_quotation qid w) = Inr (Response 200 (Exported (qid, True))) \<and>
            db (snd (export_quotation qid w)) =
              (db w) \<lparr> quotations := (quotations (db w))
                  (qid \<mapsto> q \<lparr> exported := True, updated_at := current_timestamp w \<rparr>) \<rparr> \<and>
            (exported q \<longrightarrow>
               quotations (db (snd (export_quotation qid w))) qid =
                 Some (q \<lparr> updated_at := current_timestamp w \<rparr>)))"
proof -
  from export_outcome [OF assms(1,2,3)] assms(4)
  have i: "idle (snd (export_quotation qid w)) \<and> \<not> pool_down (snd (export_quotation qid w))"
    and c: "case quotations (db w) qid of
                 None \<Rightarrow>
                   status_code (fst (export_quotation qid w)) = Some 404 \<and>
                   db (snd (export_quotation qid w)) = db w
               | Some q \<Rightarrow>
                   fst (export_quotation qid w) = Inr (Response 200 (Exported (qid, True))) \<and>
                   db (snd (export_quotation qid w)) =
                     (db w) \<lparr> quotations := (quotations (db w))
                        (qid \<mapsto> q \<lparr> exported := True, updated_at := current_timestamp w \<rparr>) \<rparr>"
    by simp_all
  show ?thesis
  proof (cases "quotations (db w) qid")
    case None
    with i c show ?thesis by simp
  next
    case (Some q)
    have "exported q \<Longrightarrow> q \<lparr> exported := True, updated_at := current_timestamp w \<rparr> =
        q \<lparr> updated_at := current_timestamp w \<rparr>" by simp
    with Some i c show ?thesis by auto
  qed
qed

text \<open>Marking quotation 7 twice, and marking the missing quotation 8.\<close>

theorem export_marker_witness:
  "idle (example_world []) \<and> ''7'' \<noteq> [] \<and> \<not> pool_down (example_world []) \<and>
   \<not> all_fail 4 (example_world []) \<and>
   \<not> exported example_quotation \<and>
   fst (export_quotation ''7'' (example_world [])) = Inr (Response 200 (Exported (''7'', True))) \<and>
   fst (export_quotation ''7'' (snd (export_quotation ''7'' (example_world [])))) =
     Inr (Response 200 (Exported (''7'', True))) \<and>
   (\<exists>q. quotations (db (snd (export_quotation ''7''
            (snd (export_quotation ''7'' (example_world [])))))) ''7'' = Some q \<and> exported q) \<and>
   status_code (fst (export_quotation ''8'' (example_world []))) = Some 404"
proof -
  let ?w = "example_world []"
  let ?w1 = "snd (export_quotation ''7'' ?w)"
  have h1: "idle ?w" by code_simp
  have h2: "\<not> all_fail 4 ?w" by code_simp
  have h3: "\<not> exported example_quotation" by code_simp
  have up: "\<not> pool_down ?w" by code_simp
  have q: "quotations (db ?w) ''7'' = Some example_quotation" "quotations (db ?w) ''8'' = None"
    by (simp_all add: example_world_def example_database_def)
  from export_marker [OF h1 _ up h2, of "''7''"] q
  have a: "fst (export_quotation ''7'' ?w) = Inr (Response 200 (Exported (''7'', True)))"
    and i1: "idle ?w1" and up1: "\<not> pool_down ?w1"
    and d1: "db ?w1 = (db ?w) \<lparr> quotations := (quotations (db ?w))
        (''7'' \<mapsto> example_quotation \<lparr> exported := True, updated_at := current_timestamp ?w \<rparr>) \<rparr>"
    by simp_all
  have h4: "\<not> all_fail 4 ?w1" by code_simp
  from d1 have q1: "quotations (db ?w1) ''7'' =
      Some (example_quotation \<lparr> exported := True, updated_at := current_timestamp ?w \<rparr>)" by simp
  from export_marker [OF i1 _ up1 h4, of "''7''"] q1
  have b: "fst (export_quotation ''7'' ?w1) = Inr (Response 200 (Exported (''7'', True)))"
    and c: "\<exists>q. quotations (db (snd (export_quotation ''7'' ?w1))) ''7'' = Some q \<and> exported q"
    by simp_all
  from export_marker [OF h1 _ up h2, of "''8''"] q
  have d: "status_code (fst (export_quotation ''8'' ?w)) = Some 404" by simp
  from h1 h2 h3 up a b c d show ?thesis by simp
qed

section \<open>The deleter\<close>

lemma select_products_deleted: "select_products qid (delete_products qid d) = []"
  by (simp add: select_products_def delete_products_def filter_empty_conv)

lemma delete_quotation_effect:
  "quotations (snd (delete_quotation qid d)) qid = None \<and>
   quotation_products (snd (delete_quotation qid d)) = quotation_products d \<and>
   (fst (delete_quotation qid d) = 0 \<longleftrightarrow> quotations d qid = None)"
  by (simp add: delete_quotation_def split: option.splits)

lemma select_header_deleted: "quotations d qid = None \<Longrightarrow> select_header qid d = []"
  by (simp add: select_header_def)

lemma delete_products_again:
  "snd ((), delete_products qid (snd ((), delete_products qid d))) = snd ((), delete_products qid d)"
  "fst ((), delete_products qid (snd ((), delete_products qid d))) = fst ((), delete_products qid d)"
  by (simp_all add: delete_products_def)

lemma funpow_delete_quotation:
  "quotations (((\<lambda>d. snd (delete_quotation qid d)) ^^ j) d) qid =
     (if j = 0 then quotations d qid else None) \<and>
   quotation_products (((\<lambda>d. snd (delete_quotation qid d)) ^^ j) d) = quotation_products d"
  by (induction j) (simp_all add: delete_quotation_effect)

text \<open>The deleter, started with no transaction open.\<close>

lemma delete_handler_outcome:
  assumes "idle w" "qid \<noteq> []"
  shows "idle (snd (delete_handler qid w)) \<and>
         (\<exists>rest. log (snd (delete_handler qid w)) = log w @ DeleteProducts qid # rest) \<and>
         (faults w = [] \<longrightarrow> status_code (fst (delete_handler qid w)) \<noteq> Some 500) \<and>
         (status_code (fst (delete_handler qid w)) = Some 500 \<or>
          select_products qid (db (snd (delete_handler qid w))) = [] \<and>
          quotations (db (snd (delete_handler qid w))) qid = None \<and>
          status_code (fst (delete_handler qid w)) =
            Some (if fst (delete_quotation qid (header_delete_on qid w)) = 0 then 404 else 200) \<and>
          (quotations (header_delete_on qid w) qid = None \<or>
           quotations (header_delete_on qid w) qid = quotations (db w) qid) \<and>
          (punctual w \<longrightarrow> quotations (header_delete_on qid w) qid = quotations (db w) qid))"
proof -
  let ?run = "\<lambda>d. ((), delete_products qid d)"
  obtain r1 w1 where s1: "executeWithRetry (deleteProducts qid) 3 w = (r1, w1)"
    by (cases "executeWithRetry (deleteProducts qid) 3 w")
  then have s1': "executeWithRetry (withTimeout (query (DeleteProducts qid) ?run) 10000) 3 w =
      (r1, w1)" by (simp add: deleteProducts_def)
  note c1 = retry_idle_stable [OF assms(1) s1' delete_products_again]
  from c1 obtain k where "log w1 = log w @ replicate (Suc k) (DeleteProducts qid)" by blast
  then have lg1: "log w1 = log w @ DeleteProducts qid # replicate k (DeleteProducts qid)" by simp
  show ?thesis
  proof (cases "all_fail 4 w")
    case True
    with c1 obtain e where "r1 = Inl e" by auto
    with s1 assms(2) have "delete_handler qid w =
        (Inr (Response 500 (ErrorBody ''Internal Server Error'')), w1)"
      by (simp add: delete_handler_def)
    with c1 True lg1 show ?thesis by (auto simp: status_code_def all_fail_def)
  next
    case f1: False
    with c1 have r1: "r1 = Inr ()" and d1: "db w1 = delete_products qid (db w)"
      and i1: "idle w1" and nf1: "faults w = [] \<longrightarrow> faults w1 = []"
      and p1: "punctual w \<longrightarrow> punctual w1" by simp_all
    obtain r2 w2 where s2: "executeWithRetry (deleteOrder qid) 3 w1 = (r2, w2)"
      by (cases "executeWithRetry (deleteOrder qid) 3 w1")
    then have s2': "executeWithRetry
        (withTimeout (query (DeleteQuotation qid) (delete_quotation qid)) 10000) 3 w1 = (r2, w2)"
      by (simp add: deleteOrder_def)
    note c2 = retry_idle [OF i1 s2']
    from c2 obtain j where "log w2 = log w1 @ replicate (Suc j) (DeleteQuotation qid)" by blast
    with lg1 have lg2: "\<exists>rest. log w2 = log w @ DeleteProducts qid # rest" by simp
    show ?thesis
    proof (cases "all_fail 4 w1")
      case True
      with c2 obtain e where "r2 = Inl e" by auto
      with s1 r1 s2 assms(2) have "delete_handler qid w =
          (Inr (Response 500 (ErrorBody ''Internal Server Error'')), w2)"
        by (simp add: delete_handler_def)
      with c2 True lg2 nf1 show ?thesis by (auto simp: status_code_def all_fail_def)
    next
      case False
      let ?d1 = "delete_products qid (db w)"
      let ?F = "\<lambda>d. snd (delete_quotation qid d)"
      from False c2 d1 obtain j where j: "punctual w1 \<longrightarrow> j = 0"
        and r2: "r2 = Inr (fst (delete_quotation qid ((?F ^^ j) ?d1)))"
        and d2: "db w2 = snd (delete_quotation qid ((?F ^^ j) ?d1))"
        and la: "db (last_attempt (withTimeout (query (DeleteQuotation qid) (delete_quotation qid))
                   10000) 3 w1) = (?F ^^ j) ?d1"
        by auto
      from la s1 have on: "header_delete_on qid w = (?F ^^ j) ?d1"
        by (simp add: header_delete_on_def deleteOrder_def)
      have q1: "quotations ?d1 = quotations (db w)" by (simp add: delete_products_def)
      note fp = funpow_delete_quotation [where qid = qid and j = j and d = ?d1]
      from fp q1 have hq: "quotations (header_delete_on qid w) qid =
          (if j = 0 then quotations (db w) qid else None)" by (simp add: on)
      from delete_quotation_effect [of qid "(?F ^^ j) ?d1"] fp
      have gone: "quotations (db w2) qid = None"
        and items: "quotation_products (db w2) = quotation_products ?d1"
        by (simp_all add: d2)
      from items have none: "select_products qid (db w2) = []"
        using select_products_deleted [of qid "db w"] by (simp add: select_products_def)
      from s1 r1 s2 r2 assms(2) on
      have "fst (delete_handler qid w) =
          (if fst (delete_quotation qid (header_delete_on qid w)) = 0
           then Inr (Response 404 (ErrorBody ''Quotations not found''))
           else Inr (Response 200
                   (Message ''Quotation and associated products deleted successfully'')))"
        and "snd (delete_handler qid w) = w2"
        by (simp_all add: delete_handler_def)
      with c2 gone none lg2 hq j p1 show ?thesis by (auto simp: status_code_def)
    qed
  qed
qed

text \<open>
  Claim C8: the deleter issues the delete of the line items first, whether or not a header
  row exists. Unless a statement fails for good (internal error), afterwards no line item
  and no header row of the identifier remain, and the answer is not found exactly when
  the header delete it goes by affects no row, success otherwise. That delete finds the
  header row as the request found it, except that after a time-out an earlier attempt,
  which the handler gave up waiting for, may have removed the row already. After a success
  an aggregate read of the same identifier answers not found.
\<close>

theorem quotation_deleter:
  assumes "idle w" "qid \<noteq> []"
  shows "(\<exists>rest. log (snd (delete_handler qid w)) = log w @ DeleteProducts qid # rest) \<and>
         (faults w = [] \<longrightarrow> status_code (fst (delete_handler qid w)) \<noteq> Some 500) \<and>
         (status_code (fst (delete_handler qid w)) \<noteq> Some 500 \<longrightarrow>
            select_products qid (db (snd (delete_handler qid w))) = [] \<and>
            quotations (db (snd (delete_handler qid w))) qid = None \<and>
            (status_code (fst (delete_handler qid w)) = Some 404 \<longleftrightarrow>
               fst (delete_quotation qid (header_delete_on qid w)) = 0) \<and>
            (succeeded (fst (delete_handler qid w)) \<longleftrightarrow>
               0 < fst (delete_quotation qid (header_delete_on qid w))) \<and>
            (quotations (header_delete_on qid w) qid = None \<or>
             quotations (header_delete_on qid w) qid = quotations (db w) qid) \<and>
            (punctual w \<longrightarrow> quotations (header_delete_on qid w) qid = quotations (db w) qid)) \<and>
         (succeeded (fst (delete_handler qid w)) \<longrightarrow>
            quotations (db w) qid \<noteq> None \<and>
            (\<forall>w2. idle w2 \<and> db w2 = db (snd (delete_handler qid w)) \<and> \<not> all_fail 4 w2 \<longrightarrow>
               status_code (fst (get_quotation qid w2)) = Some 404))"
proof -
  let ?r = "fst (delete_handler qid w)" and ?w' = "snd (delete_handler qid w)"
  note o = delete_handler_outcome [OF assms]
  have sc: "succeeded ?r \<longleftrightarrow> status_code ?r = Some 200"
    by (auto simp: succeeded_def status_code_def split: sum.splits response.splits)
  have cnt: "fst (delete_quotation qid d) = 0 \<longleftrightarrow> quotations d qid = None" for d
    by (simp add: delete_quotation_effect)
  have read: "status_code (fst (get_quotation qid w2)) = Some 404"
    if "succeeded ?r" "idle w2" "db w2 = db ?w'" "\<not> all_fail 4 w2" for w2
  proof -
    from that(1) o have "quotations (db ?w') qid = None" by (auto simp: sc)
    with that(3) have "select_header qid (db w2) = []" by (simp add: select_header_deleted)
    from get_quotation_not_found [OF that(2) assms(2) this] that(4) show ?thesis by simp
  qed
  have was: "quotations (db w) qid \<noteq> None" if "succeeded ?r"
    using that o by (auto simp: sc cnt split: if_splits)
  from o read was show ?thesis by (auto simp: sc split: if_splits)
qed

text \<open>
  Quotation 7 is deleted and then not found; quotation 8 is not found, its line items
  deleted all the same. When the header delete of quotation 7 is answered after twenty
  seconds and sent again, the second delete affects no row and the answer is not found.
\<close>

theorem quotation_deleter_witness:
  "idle (example_world []) \<and> ''7'' \<noteq> [] \<and>
   succeeded (fst (delete_handler ''7'' (example_world []))) \<and>
   select_products ''7'' (db (snd (delete_handler ''7'' (example_world [])))) = [] \<and>
   status_code (fst (get_quotation ''7'' (snd (delete_handler ''7'' (example_world []))))) = Some 404 \<and>
   status_code (fst (delete_handler ''8'' (example_world []))) = Some 404 \<and>
   (\<exists>rest. log (snd (delete_handler ''8'' (example_world []))) = DeleteProducts ''8'' # rest) \<and>
   idle (example_world [Answers 0, Answers 20000]) \<and>
   status_code (fst (delete_handler ''7'' (example_world [Answers 0, Answers 20000]))) = Some 404 \<and>
   fst (delete_quotation ''7''
     (header_delete_on ''7'' (example_world [Answers 0, Answers 20000]))) = 0"
proof -
  let ?w = "example_world []"
  let ?w1 = "snd (delete_handler ''7'' ?w)"
  let ?v = "example_world [Answers 0, Answers 20000]"
  have h1: "idle ?w" by code_simp
  have h2: "succeeded (fst (delete_handler ''7'' ?w))" by code_simp
  have h3: "idle ?w1" "\<not> all_fail 4 ?w1" by code_simp+
  have h4: "status_code (fst (delete_handler ''8'' ?w)) \<noteq> Some 500" by code_simp
  have h5: "quotations (db ?w) ''8'' = None" "log ?w = []" "punctual ?w"
    by (simp_all add: example_world_def example_database_def punctual_def)
  have g1: "idle ?v" by code_simp
  have g2: "status_code (fst (delete_handler ''7'' ?v)) = Some 404" by code_simp
  note t7 = quotation_deleter [OF h1, of "''7''"]
  note t8 = quotation_deleter [OF h1, of "''8''"]
  note tv = quotation_deleter [OF g1, of "''7''"]
  from t7 h2 have a: "select_products ''7'' (db ?w1) = []"
    by (auto simp: succeeded_def status_code_def split: sum.splits response.splits)
  from t7 h2 h3 have b: "status_code (fst (get_quotation ''7'' ?w1)) = Some 404" by simp
  from t8 have "\<exists>rest. log (snd (delete_handler ''8'' ?w)) = log ?w @ DeleteProducts ''8'' # rest"
    by simp
  with h5 have c2: "\<exists>rest. log (snd (delete_handler ''8'' ?w)) = DeleteProducts ''8'' # rest"
    by simp
  from t8 h4 h5 have c1: "status_code (fst (delete_handler ''8'' ?w)) = Some 404"
    by (simp add: delete_quotation_effect)
  from tv g2 have d: "fst (delete_quotation ''7'' (header_delete_on ''7'' ?v)) = 0" by simp
  from h1 h2 a b c1 c2 g1 g2 d show ?thesis by simp
qed

section \<open>Account provisioning\<close>












section \<open>Totals\<close>

lemma foldl_add_product:
  "foldl add_product t ps =
     \<lparr> totalPrice = foldl jsadd (totalPrice t) (map totalPriceForProduct ps),
       totalVat = foldl jsadd (totalVat t) (map vat_of ps),
       totalSubtotal = foldl jsadd (totalSubtotal t) (map subtotal_of ps) \<rparr>"
  by (induction ps arbitrary: t) (simp_all add: add_product_def)

lemma sum_products_objects: "sum_products t (map Some ps) = Inr (foldl add_product t ps)"
  by (induction ps arbitrary: t) simp_all

lemma sum_products_null: "None \<in> set items \<Longrightarrow> sum_products t items = Inl TypeError"
  by (induction t items rule: sum_products.induct) auto

lemma calcTotals_sums:
  "calcTotals (Some (map Some ps)) =
     Inr \<lparr> totalPrice = foldl jsadd zero (map totalPriceForProduct ps),
           totalVat = foldl jsadd zero (map vat_of ps),
           totalSubtotal = foldl jsadd zero (map subtotal_of ps) \<rparr>"
  by (cases ps)
    (simp_all add: calcTotals_def sum_products_objects foldl_add_product Let_def add_product_def)

lemma calcTotals_null: "calcTotals (Some items) = Inl TypeError \<longleftrightarrow> None \<in> set items"
proof
  assume "None \<in> set items"
  then show "calcTotals (Some items) = Inl TypeError"
    by (auto simp: calcTotals_def Let_def sum_products_null)
next
  assume a: "calcTotals (Some items) = Inl TypeError"
  show "None \<in> set items"
  proof (rule ccontr)
    assume "None \<notin> set items"
    then have "items = map Some (map the items)" by (induction items) auto
    with calcTotals_sums [of "map the items"] a show False by simp
  qed
qed

lemma numeric_NaN: "parseFloat v = NaN \<Longrightarrow> numeric v = zero"
  by (simp add: numeric_def number_or_def)

lemma numeric_missing: "numeric JUndefined = zero" "numeric JNull = zero"
proof -
  have "parseFloat JUndefined = NaN" "parseFloat JNull = NaN" by code_simp+
  then show "numeric JUndefined = zero" "numeric JNull = zero" by (simp_all add: numeric_NaN)
qed

subsection \<open>Rounding\<close>

text \<open>
  Every product and sum is a representable value, and rounding leaves a representable value
  as it is; so adding a number to the initial 0 returns that number.
\<close>

lemma p2_pos: "0 < (2::rat) powi k"
  by simp

lemma p2_nat: "0 \<le> k \<Longrightarrow> (2::rat) powi k = 2 ^ nat k"
  by (simp add: power_int_def)

lemma p2_neg: "k \<le> 0 \<Longrightarrow> (2::rat) powi k = 1 / 2 ^ nat (- k)"
  by (cases "k = 0") (simp_all add: power_int_def field_simps)

lemma p2_add: "(2::rat) powi (j + k) = 2 powi j * 2 powi k"
  by (simp add: power_int_add)

lemma p2_diff: "(2::rat) powi (j - k) = 2 powi j / 2 powi k"
  by (simp add: power_int_diff)

lemma p2_mono: "j \<le> k \<Longrightarrow> (2::rat) powi j \<le> 2 powi k"
  by (rule power_int_increasing) simp_all

lemma bitlen_rat_bounds:
  assumes "0 < n"
  shows "(2::rat) powi (bitlen n - 1) \<le> of_int n" "of_int n < (2::rat) powi bitlen n"
proof -
  from assms have b1: "1 \<le> bitlen n" by (simp add: bitlen_alt_def)
  from bitlen_bounds [OF assms] have lo: "2 ^ nat (bitlen n - 1) \<le> n" and hi: "n < 2 ^ nat (bitlen n)"
    by simp_all
  from lo have "(of_int (2 ^ nat (bitlen n - 1)) :: rat) \<le> of_int n" by (simp only: of_int_le_iff)
  then show "(2::rat) powi (bitlen n - 1) \<le> of_int n" using b1 by (simp add: p2_nat)
  from hi have "(of_int n :: rat) < of_int (2 ^ nat (bitlen n))" by (simp only: of_int_less_iff)
  then show "of_int n < (2::rat) powi bitlen n" using b1 by (simp add: p2_nat)
qed

lemma ratio_log:
  fixes n b :: int
  assumes "0 < n" "0 < b"
  defines "t \<equiv> bitlen n - bitlen b"
  defines "l \<equiv> (if (if 0 \<le> t then b * 2 ^ nat t \<le> n else b \<le> n * 2 ^ nat (- t)) then t else t - 1)"
  shows "(2::rat) powi l \<le> of_int n / of_int b" "of_int n / of_int b < (2::rat) powi (l + 1)"
proof -
  let ?x = "of_int n / of_int b :: rat"
  have bpos: "(0::rat) < of_int b" using assms(2) by simp
  note nb = bitlen_rat_bounds [OF assms(1)] and bb = bitlen_rat_bounds [OF assms(2)]
  have test: "(if 0 \<le> t then b * 2 ^ nat t \<le> n else b \<le> n * 2 ^ nat (- t)) \<longleftrightarrow> 2 powi t \<le> ?x"
  proof (cases "0 \<le> t")
    case True
    have "b * 2 ^ nat t \<le> n \<longleftrightarrow> (of_int (b * 2 ^ nat t) :: rat) \<le> of_int n"
      by (simp only: of_int_le_iff)
    also have "\<dots> \<longleftrightarrow> of_int b * (2::rat) powi t \<le> of_int n" using True by (simp add: p2_nat)
    also have "\<dots> \<longleftrightarrow> 2 powi t \<le> ?x" using bpos by (simp add: field_simps)
    finally show ?thesis using True by simp
  next
    case False
    then have neg: "t \<le> 0" by simp
    have "b \<le> n * 2 ^ nat (- t) \<longleftrightarrow> (of_int b :: rat) \<le> of_int (n * 2 ^ nat (- t))"
      by (simp only: of_int_le_iff)
    also have "\<dots> \<longleftrightarrow> (of_int b :: rat) \<le> of_int n / 2 powi t"
      using neg by (simp add: p2_neg)
    also have "\<dots> \<longleftrightarrow> 2 powi t \<le> ?x" using bpos p2_pos [of t] by (simp add: field_simps)
    finally show ?thesis using False by simp
  qed
  have up: "?x < 2 powi (t + 1)"
  proof -
    have "?x < 2 powi bitlen n / of_int b" using nb(2) bpos by (simp add: divide_strict_right_mono)
    also have "\<dots> \<le> 2 powi bitlen n / 2 powi (bitlen b - 1)"
      using bb(1) p2_pos [of "bitlen b - 1"] p2_pos [of "bitlen n"] bpos
      by (intro divide_left_mono mult_pos_pos) simp_all
    also have "\<dots> = 2 powi (t + 1)" by (simp add: t_def p2_diff [symmetric] algebra_simps)
    finally show ?thesis .
  qed
  have low: "2 powi (t - 1) < ?x"
  proof -
    have "(2::rat) powi (t - 1) = 2 powi (bitlen n - 1) / 2 powi bitlen b"
      by (simp add: t_def p2_diff [symmetric] algebra_simps)
    also have "\<dots> < 2 powi (bitlen n - 1) / of_int b"
      using bb(2) bpos p2_pos [of "bitlen n - 1"] by (intro divide_strict_left_mono) simp_all
    also have "\<dots> \<le> ?x" using nb(1) bpos by (simp add: divide_right_mono)
    finally show ?thesis .
  qed
  show "(2::rat) powi l \<le> ?x"
    using test low unfolding l_def by (auto simp: less_imp_le)
  show "?x < (2::rat) powi (l + 1)"
    using test up unfolding l_def by (auto simp: not_le)
qed

lemma round_div_exact: "0 < d \<Longrightarrow> round_div (k * d) d = k"
  by (simp add: round_div_def)

lemma round_div_nonneg: "0 \<le> n \<Longrightarrow> 0 < d \<Longrightarrow> 0 \<le> round_div n d"
  by (auto simp: round_div_def Let_def pos_imp_zdiv_nonneg_iff)

lemma round_div_le:
  fixes n d k :: int
  assumes "0 < d" "n < k * d"
  shows "round_div n d \<le> k"
proof -
  have "n div d < k"
  proof (rule ccontr)
    assume "\<not> n div d < k"
    then have "k * d \<le> (n div d) * d" using assms(1) by (simp add: mult_right_mono)
    also have "\<dots> = n - n mod d" by (simp add: minus_mod_eq_div_mult)
    also have "\<dots> \<le> n" using assms(1) by simp
    finally show False using assms(2) by simp
  qed
  then show ?thesis by (auto simp: round_div_def Let_def)
qed

lemma canonical_double:
  assumes "m \<noteq> 0" "\<bar>m\<bar> \<le> 2 ^ 53" "- 1074 \<le> e" "bitlen \<bar>m\<bar> + e \<le> 1024"
  shows "is_double (canonical m e)"
proof -
  obtain m' e' where c: "canonical m e = Fin m' e'" using canonical_Fin by blast
  from canonical_value [OF assms(1) c]
  have e: "e \<le> e'" and v: "m = m' * 2 ^ nat (e' - e)" and o: "odd m'" by simp_all
  from o have nz: "m' \<noteq> 0" by auto
  have abs: "\<bar>m\<bar> = \<bar>m'\<bar> * 2 ^ nat (e' - e)" by (subst v) (simp add: abs_mult)
  have "\<bar>m'\<bar> * 1 \<le> \<bar>m'\<bar> * 2 ^ nat (e' - e)" by (intro mult_left_mono) simp_all
  with abs assms(2) have le: "\<bar>m'\<bar> \<le> 2 ^ 53" by simp
  have "\<bar>m'\<bar> \<noteq> 2 ^ 53" using o by (metis even_abs_add_iff even_add even_numeral even_power
        zero_less_numeral odd_pos)
  with le have lt: "\<bar>m'\<bar> < 2 ^ 53" by simp
  have "bitlen \<bar>m\<bar> = bitlen \<bar>m'\<bar> + int (nat (e' - e))"
    unfolding abs using nz by (intro bitlen_pow2) simp
  with assms(4) e have "bitlen \<bar>m'\<bar> + e' \<le> 1024" by simp
  with o lt e assms(3) show ?thesis by (simp add: c is_double_def)
qed

lemma fl_ratio_double:
  assumes "0 < b"
  shows "is_double (fl_ratio a b)"
proof (cases "a = 0")
  case True
  then show ?thesis by (simp add: fl_ratio_def is_double_def)
next
  case nz: False
  define n where "n = \<bar>a\<bar>"
  define t where "t = bitlen n - bitlen b"
  define l where "l = (if (if 0 \<le> t then b * 2 ^ nat t \<le> n else b \<le> n * 2 ^ nat (- t))
                       then t else t - 1)"
  define E where "E = max (l - 52) (- 1074)"
  define mr where "mr = (if 0 \<le> E then round_div n (b * 2 ^ nat E)
                         else round_div (n * 2 ^ nat (- E)) b)"
  have npos: "0 < n" using nz by (simp add: n_def)
  have unfold: "fl_ratio a b =
      (if 971 < E \<or> (E = 971 \<and> 2 ^ 53 \<le> mr) then (if 0 < a then PosInf else NegInf)
       else canonical (if 0 < a then mr else - mr) E)"
    unfolding fl_ratio_def Let_def n_def t_def l_def E_def mr_def
    using nz by (simp only: if_False)
  let ?x = "of_int n / of_int b :: rat"
  have bpos: "(0::rat) < of_int b" using assms by simp
  have up: "?x < 2 powi (l + 1)"
    unfolding l_def t_def by (rule ratio_log(2) [OF npos assms])
  have "l + 1 \<le> E + 53" by (simp add: E_def)
  then have "(2::rat) powi (l + 1) \<le> 2 powi (E + 53)" by (rule p2_mono)
  with up have x53: "?x < 2 powi E * 2 ^ 53" by (simp add: p2_add)
  have mr_le: "mr \<le> 2 ^ 53"
  proof (cases "0 \<le> E")
    case True
    from x53 True have "of_int n < (2::rat) ^ nat E * 2 ^ 53 * of_int b"
      using bpos by (simp add: p2_nat field_simps)
    then have "(of_int n :: rat) < of_int (2 ^ 53 * (b * 2 ^ nat E))" by (simp add: mult_ac)
    then have "n < 2 ^ 53 * (b * 2 ^ nat E)" by (simp only: of_int_less_iff)
    moreover have "0 < b * 2 ^ nat E" using assms by simp
    ultimately have "round_div n (b * 2 ^ nat E) \<le> 2 ^ 53" by (intro round_div_le)
    with True show ?thesis by (simp add: mr_def)
  next
    case False
    then have neg: "E \<le> 0" by simp
    from x53 have "of_int n * (2::rat) ^ nat (- E) < 2 ^ 53 * of_int b"
      using bpos neg by (simp add: p2_neg field_simps)
    then have "(of_int (n * 2 ^ nat (- E)) :: rat) < of_int (2 ^ 53 * b)" by simp
    then have "n * 2 ^ nat (- E) < 2 ^ 53 * b" by (simp only: of_int_less_iff)
    then have "round_div (n * 2 ^ nat (- E)) b \<le> 2 ^ 53" using assms by (intro round_div_le)
    with False show ?thesis by (simp add: mr_def)
  qed
  have mr_ge: "0 \<le> mr"
    using npos assms by (auto simp: mr_def intro!: round_div_nonneg)
  show ?thesis
  proof (cases "971 < E \<or> (E = 971 \<and> 2 ^ 53 \<le> mr)")
    case True
    then show ?thesis by (simp add: unfold is_double_def)
  next
    case fin: False
    show ?thesis
    proof (cases "mr = 0")
      case True
      with fin show ?thesis by (simp add: unfold canonical_zero is_double_def)
    next
      case False
      let ?m = "if 0 < a then mr else - mr"
      have m: "?m \<noteq> 0" "\<bar>?m\<bar> = mr" using False mr_ge by auto
      have e: "- 1074 \<le> E" by (simp add: E_def)
      have "bitlen mr + E \<le> 1024"
      proof (cases "mr = 2 ^ 53")
        case True
        then have "bitlen mr = 54" using bitlen_pow2 [of 1 53] by (simp add: bitlen_alt_def)
        moreover from True fin have "E \<le> 970" by auto
        ultimately show ?thesis by simp
      next
        case False
        with mr_le have "mr < 2 ^ 53" by simp
        then have "bitlen mr \<le> 53" by (simp add: bitlen_le_iff_power)
        moreover from fin have "E \<le> 971" by auto
        ultimately show ?thesis by simp
      qed
      with m e mr_le have "is_double (canonical ?m E)"
        by (intro canonical_double) (simp_all only: m)
      then show ?thesis by (simp only: unfold fin if_False)
    qed
  qed
qed

lemma canonical_odd: "odd m \<Longrightarrow> canonical m e = Fin m e"
  by (subst canonical.simps) auto

lemma canonical_odd_shift: "odd m \<Longrightarrow> canonical (m * 2 ^ k) e = Fin m (e + int k)"
  by (subst canonical_shift) (auto simp: canonical_odd)

lemma below_pow53:
  fixes n :: int
  assumes "0 < n" "int k \<le> 53 - bitlen n"
  shows "n * 2 ^ k < 2 ^ 53"
proof -
  from bitlen_bounds [OF assms(1)] have "n < 2 ^ nat (bitlen n)" by simp
  then have "n * 2 ^ k < 2 ^ nat (bitlen n) * 2 ^ k" by simp
  also have "\<dots> = 2 ^ (nat (bitlen n) + k)" by (simp add: power_add)
  also have "\<dots> \<le> (2::int) ^ 53"
  proof (rule power_increasing)
    show "nat (bitlen n) + k \<le> 53" using assms(2) bitlen_nonneg [of n] by linarith
  qed simp
  finally show ?thesis .
qed

lemma fl_ratio_unfold:
  assumes "a \<noteq> 0"
    and "t = bitlen \<bar>a\<bar> - bitlen b"
    and "l = (if (if 0 \<le> t then b * 2 ^ nat t \<le> \<bar>a\<bar> else b \<le> \<bar>a\<bar> * 2 ^ nat (- t))
              then t else t - 1)"
    and "E = max (l - 52) (- 1074)"
    and "mr = (if 0 \<le> E then round_div \<bar>a\<bar> (b * 2 ^ nat E)
               else round_div (\<bar>a\<bar> * 2 ^ nat (- E)) b)"
  shows "fl_ratio a b =
      (if 971 < E \<or> (E = 971 \<and> 2 ^ 53 \<le> mr) then (if 0 < a then PosInf else NegInf)
       else canonical (if 0 < a then mr else - mr) E)"
  unfolding assms(5) assms(4) assms(3) assms(2) fl_ratio_def Let_def
  using assms(1) by (simp only: if_False)

lemma fl_ratio_repr:
  assumes "odd m" "\<bar>m\<bar> < 2 ^ 53" "bitlen \<bar>m\<bar> + int i \<le> 1024"
  shows "fl_ratio (m * 2 ^ i) 1 = Fin m (int i)"
proof -
  define n where "n = \<bar>m\<bar>"
  from assms(1) have mnz: "m \<noteq> 0" by auto
  then have npos: "0 < n" by (simp add: n_def)
  have abs: "\<bar>m * 2 ^ i\<bar> = n * 2 ^ i" by (simp add: n_def abs_mult)
  have bl: "bitlen (n * 2 ^ i) = bitlen n + int i" using npos by (rule bitlen_pow2)
  have b1: "bitlen 1 = 1" by (simp add: bitlen_alt_def)
  have n1: "1 \<le> bitlen n" using npos by (simp add: bitlen_alt_def)
  have n53: "bitlen n \<le> 53" using assms(2) by (simp add: n_def bitlen_le_iff_power)
  define k where "k = nat (53 - bitlen n)"
  define E where "E = int i - int k"
  have E: "bitlen n + int i - 1 - 52 = E" using n53 by (simp add: E_def k_def)
  have t0: "0 \<le> bitlen n + int i - 1" using n1 by simp
  have pos: "0 < n * 2 ^ i" using npos by simp
  from bitlen_bounds [OF pos] have low: "2 ^ nat (bitlen n + int i - 1) \<le> n * 2 ^ i"
    by (simp add: bl)
  have Emax: "max E (- 1074) = E" using n1 by (simp add: E_def k_def)
  have mr: "(if 0 \<le> E then round_div (n * 2 ^ i) (1 * 2 ^ nat E)
             else round_div (n * 2 ^ i * 2 ^ nat (- E)) 1) = n * 2 ^ k"
  proof (cases "0 \<le> E")
    case True
    then have "i = k + nat E" by (simp add: E_def)
    then have "n * 2 ^ i = (n * 2 ^ k) * 2 ^ nat E" by (simp add: power_add)
    then have "round_div (n * 2 ^ i) (2 ^ nat E) = n * 2 ^ k"
      by (simp only: round_div_exact [of "2 ^ nat E", simplified])
    then show ?thesis using True by simp
  next
    case False
    then have "k = i + nat (- E)" by (simp add: E_def)
    then have "n * 2 ^ i * 2 ^ nat (- E) = n * 2 ^ k" by (simp add: power_add)
    then show ?thesis using False by (simp add: round_div_one)
  qed
  have small: "n * 2 ^ k < 2 ^ 53" using npos n53 by (intro below_pow53) (simp_all add: k_def)
  have E971: "E \<le> 971" using assms(3) n53 by (simp add: E_def k_def n_def)
  have nz: "m * 2 ^ i \<noteq> 0" using mnz by simp
  have sgn: "(if 0 < m * 2 ^ i then n * 2 ^ k else - (n * 2 ^ k)) = m * 2 ^ k"
    using mnz by (simp add: n_def zero_less_mult_iff)
  define T where "T = bitlen n + int i - 1"
  have "T = bitlen \<bar>m * 2 ^ i\<bar> - bitlen 1" by (simp add: T_def abs bl b1)
  moreover have "T = (if (if 0 \<le> T then 1 * 2 ^ nat T \<le> \<bar>m * 2 ^ i\<bar>
                           else 1 \<le> \<bar>m * 2 ^ i\<bar> * 2 ^ nat (- T)) then T else T - 1)"
    using t0 low by (simp add: T_def abs)
  moreover have "E = max (T - 52) (- 1074)" using E Emax by (simp add: T_def)
  moreover have "n * 2 ^ k = (if 0 \<le> E then round_div \<bar>m * 2 ^ i\<bar> (1 * 2 ^ nat E)
             else round_div (\<bar>m * 2 ^ i\<bar> * 2 ^ nat (- E)) 1)"
    by (simp only: abs mr)
  ultimately have "fl_ratio (m * 2 ^ i) 1 =
      (if 971 < E \<or> (E = 971 \<and> 2 ^ 53 \<le> n * 2 ^ k)
       then (if 0 < m * 2 ^ i then PosInf else NegInf)
       else canonical (if 0 < m * 2 ^ i then n * 2 ^ k else - (n * 2 ^ k)) E)"
    by (rule fl_ratio_unfold [OF nz])
  also have "\<dots> = canonical (m * 2 ^ k) E" using small E971 by (simp only: sgn) simp
  also have "\<dots> = Fin m (int i)" using assms(1) by (simp add: canonical_odd_shift E_def)
  finally show ?thesis .
qed

lemma fl_ratio_repr_neg:
  assumes "odd m" "\<bar>m\<bar> < 2 ^ 53" "0 < j" "int j \<le> 1074"
  shows "fl_ratio m (2 ^ j) = Fin m (- int j)"
proof -
  define n where "n = \<bar>m\<bar>"
  from assms(1) have mnz: "m \<noteq> 0" by auto
  then have npos: "0 < n" by (simp add: n_def)
  have bj: "bitlen ((2::int) ^ j) = int j + 1" using bitlen_pow2 [of 1 j] by (simp add: bitlen_alt_def)
  have n1: "1 \<le> bitlen n" using npos by (simp add: bitlen_alt_def)
  have n53: "bitlen n \<le> 53" using assms(2) by (simp add: n_def bitlen_le_iff_power)
  from bitlen_bounds [OF npos] have low: "2 ^ nat (bitlen n - 1) \<le> n" by simp
  define T where "T = bitlen n - int j - 1"
  define E where "E = max (T - 52) (- 1074)"
  define k where "k = nat (- E - int j)"
  have Ej: "E \<le> - int j" using n53 assms(4) by (simp add: E_def T_def)
  have Eneg: "E < 0" using Ej assms(3) by simp
  have kE: "int k = - E - int j" using Ej by (simp add: k_def)
  have k53: "int k \<le> 53 - bitlen n" unfolding kE by (simp add: E_def T_def)
  have T1: "T = bitlen \<bar>m\<bar> - bitlen ((2::int) ^ j)" by (simp add: T_def n_def bj)
  have T2: "T = (if (if 0 \<le> T then 2 ^ j * 2 ^ nat T \<le> \<bar>m\<bar>
                      else 2 ^ j \<le> \<bar>m\<bar> * 2 ^ nat (- T)) then T else T - 1)"
  proof (cases "0 \<le> T")
    case True
    then have "j + nat T = nat (bitlen n - 1)" by (simp add: T_def)
    then have "(2::int) ^ j * 2 ^ nat T = 2 ^ nat (bitlen n - 1)" by (simp flip: power_add)
    with low True show ?thesis by (simp add: n_def)
  next
    case False
    then have "j = nat (bitlen n - 1) + nat (- T)" using n1 by (simp add: T_def)
    then have "(2::int) ^ j = 2 ^ nat (bitlen n - 1) * 2 ^ nat (- T)" by (simp flip: power_add)
    also have "\<dots> \<le> n * 2 ^ nat (- T)" using low by (intro mult_right_mono) simp_all
    finally show ?thesis using False by (simp add: n_def)
  qed
  have mr: "n * 2 ^ k = (if 0 \<le> E then round_div \<bar>m\<bar> (2 ^ j * 2 ^ nat E)
             else round_div (\<bar>m\<bar> * 2 ^ nat (- E)) (2 ^ j))"
  proof -
    have "nat (- E) = k + j" using kE by simp
    then have "n * 2 ^ nat (- E) = (n * 2 ^ k) * 2 ^ j" by (simp add: power_add)
    then have "round_div (n * 2 ^ nat (- E)) (2 ^ j) = n * 2 ^ k"
      by (simp only: round_div_exact [of "2 ^ j", simplified])
    then show ?thesis using Eneg by (simp add: n_def)
  qed
  have small: "n * 2 ^ k < 2 ^ 53" using npos k53 by (rule below_pow53)
  have sgn: "(if 0 < m then n * 2 ^ k else - (n * 2 ^ k)) = m * 2 ^ k"
    using mnz by (simp add: n_def)
  have "fl_ratio m (2 ^ j) =
      (if 971 < E \<or> (E = 971 \<and> 2 ^ 53 \<le> n * 2 ^ k)
       then (if 0 < m then PosInf else NegInf)
       else canonical (if 0 < m then n * 2 ^ k else - (n * 2 ^ k)) E)"
    using mnz T1 T2 E_def mr by (rule fl_ratio_unfold)
  also have "\<dots> = canonical (m * 2 ^ k) E" using Eneg by (simp only: sgn) simp
  also have "\<dots> = Fin m (- int j)" using assms(1) by (simp add: canonical_odd_shift kE)
  finally show ?thesis .
qed

lemma fl_binary_double: "is_double (fl_binary m e)"
  by (simp add: fl_binary_def fl_ratio_double)

lemma fl_binary_repr:
  assumes "is_double (Fin m e)"
  shows "fl_binary m e = Fin m e"
proof (cases "m = 0")
  case True
  with assms have "e = 0" by (simp add: is_double_def)
  with True show ?thesis by (simp add: fl_binary_def fl_ratio_def)
next
  case False
  with assms have d: "odd m" "\<bar>m\<bar> < 2 ^ 53" "- 1074 \<le> e" "bitlen \<bar>m\<bar> + e \<le> 1024"
    by (auto simp: is_double_def)
  show ?thesis
  proof (cases "0 \<le> e")
    case True
    with d have "fl_ratio (m * 2 ^ nat e) 1 = Fin m (int (nat e))"
      by (intro fl_ratio_repr) simp_all
    with True show ?thesis by (simp add: fl_binary_def)
  next
    case False
    with d have "fl_ratio m (2 ^ nat (- e)) = Fin m (- int (nat (- e)))"
      by (intro fl_ratio_repr_neg) simp_all
    with False show ?thesis by (simp add: fl_binary_def)
  qed
qed

lemma jsadd_zero:
  assumes "is_double x"
  shows "jsadd zero x = x"
proof (cases x)
  case (Fin m e)
  with assms have "fl_binary m e = Fin m e" by (simp add: fl_binary_repr)
  moreover have "m \<noteq> 0 \<or> e = 0" using assms Fin by (auto simp: is_double_def)
  moreover have "0 \<le> e \<Longrightarrow> fl_binary (m * 2 ^ nat e) 0 = fl_binary m e"
    by (simp add: fl_binary_def)
  ultimately show ?thesis using Fin by (auto simp: zero_def min_def)
qed (simp_all add: zero_def)

lemma is_double_special: "is_double PosInf" "is_double NegInf" "is_double NaN" "is_double (Fin 0 0)"
  by (simp_all add: is_double_def)

lemma jsmul_double: "is_double (jsmul x y)"
  by (cases "(x, y)" rule: jsmul.cases)
    (simp_all add: fl_binary_double is_double_special signed_inf_def)

lemma jsadd_double: "is_double (jsadd x y)"
  by (cases "(x, y)" rule: jsadd.cases) (simp_all add: fl_binary_double is_double_special Let_def)

lemma single_item_totals:
  "calcTotals (Some [Some p]) =
     Inr \<lparr> totalPrice = totalPriceForProduct p,
           totalVat = jsmul (totalPriceForProduct p) vat_rate,
           totalSubtotal =
             jsadd (totalPriceForProduct p) (jsmul (totalPriceForProduct p) vat_rate) \<rparr>"
  by (simp add: calcTotals_def add_product_def vat_of_def subtotal_of_def totalPriceForProduct_def
      jsadd_zero jsmul_double jsadd_double)

subsection \<open>The totals of a request\<close>

lemma revision_totals:
  assumes "idle w" "faults w = []" "\<not> pool_down w" "qid \<noteq> []"
    "quotations (db w) qid = Some r" "custom_id r \<noteq> None" "b_products body = Some (map Some ps)"
  shows "succeeded (fst (put_quotation qid body w)) \<and>
         (\<exists>r'. quotations (committed (snd (put_quotation qid body w))) qid = Some r' \<and>
            total_price r' = foldl jsadd zero (map totalPriceForProduct ps) \<and>
            total_vat r' = foldl jsadd zero (map vat_of ps) \<and>
            total_subtotal r' = foldl jsadd zero (map subtotal_of ps))"
proof -
  obtain res w' where p: "put_quotation qid body w = (res, w')"
    by (cases "put_quotation qid body w")
  from assms(5,6,7) have "\<not> futile qid body w"
    by (auto simp: futile_def calcTotals_sums)
  with put_quotation_outcome [OF assms(1) p] assms(2-5) have "succeeded res" by simp
  with p have s: "succeeded (fst (put_quotation qid body w))" by simp
  from put_quotation_success [OF assms(1) s] obtain q cid t k where
    rv: "revisable qid body w q cid t"
    and q': "quotations (committed (snd (put_quotation qid body w))) qid =
       Some (updated_row (revision_params body (now_iso w) ((nextCustomId ^^ Suc k) cid) t)
               (current_timestamp w) q)" by blast
  from rv assms(7) have "t = \<lparr> totalPrice = foldl jsadd zero (map totalPriceForProduct ps),
           totalVat = foldl jsadd zero (map vat_of ps),
           totalSubtotal = foldl jsadd zero (map subtotal_of ps) \<rparr>"
    by (simp add: revisable_def calcTotals_sums)
  with s q' show ?thesis by (simp add: updated_row_def revision_params_def)
qed

lemma null_item_fails:
  assumes "idle w" "b_products body = Some items" "None \<in> set items"
  shows "\<not> succeeded (fst (put_quotation qid body w)) \<and>
         committed (snd (put_quotation qid body w)) = db w \<and>
         (faults w = [] \<and> \<not> pool_down w \<and> qid \<noteq> [] \<and> quotations (db w) qid \<noteq> None \<longrightarrow>
            status_code (fst (put_quotation qid body w)) = Some 500)"
proof -
  obtain res w' where p: "put_quotation qid body w = (res, w')"
    by (cases "put_quotation qid body w")
  note o = put_quotation_outcome [OF assms(1) p]
  from assms(2,3) have bad: "calcTotals (b_products body) = Inl TypeError"
    by (simp add: calcTotals_null)
  have ns: "\<not> succeeded res"
  proof
    assume "succeeded res"
    with o obtain q cid t where "revisable qid body w q cid t" by blast
    with bad show False by (simp add: revisable_def)
  qed
  from bad have "futile qid body w" if "quotations (db w) qid \<noteq> None"
    using that by (auto simp: futile_def)
  with o ns p show ?thesis by (auto split: option.splits)
qed

text \<open>
  Claim C2, as the code has it. The three totals are the sums, taken from left to right
  in double precision, of the line items' price times quantity, of their VAT (price times
  quantity times 0.15) and of their subtotal (price times quantity plus VAT); a missing
  product list gives 0; a price or quantity that is missing or that \<open>parseFloat\<close> does not
  read as a number counts as 0. For a single line item the total VAT is exactly 0.15 times
  the total price, and the total subtotal exactly the total price plus the total VAT. The
  computation throws exactly when a line item is \<open>null\<close>. For a request whose line items
  are all objects, on an existing quotation with a \<open>custom_id\<close> and a database that answers
  every statement, the writer answers 200 and stores these totals; a request with a \<open>null\<close>
  line item is never answered 200, writes nothing, and is answered 500 when the quotation
  exists and every statement is answered.
\<close>

theorem line_item_totals:
  "calcTotals (Some (map Some ps)) =
     Inr \<lparr> totalPrice = foldl jsadd zero (map totalPriceForProduct ps),
           totalVat = foldl jsadd zero (map (\<lambda>p. jsmul (totalPriceForProduct p) vat_rate) ps),
           totalSubtotal =
             foldl jsadd zero
               (map (\<lambda>p. jsadd (totalPriceForProduct p) (jsmul (totalPriceForProduct p) vat_rate))
                  ps) \<rparr> \<and>
   calcTotals None = Inr \<lparr> totalPrice = zero, totalVat = zero, totalSubtotal = zero \<rparr> \<and>
   (calcTotals (Some items) = Inl TypeError \<longleftrightarrow> None \<in> set items) \<and>
   totalPriceForProduct p = jsmul (numeric (p_price p)) (numeric (p_quantity p)) \<and>
   (parseFloat v = NaN \<longrightarrow> numeric v = zero) \<and>
   numeric JUndefined = zero \<and> numeric JNull = zero \<and>
   calcTotals (Some [Some q]) =
     Inr \<lparr> totalPrice = totalPriceForProduct q,
           totalVat = jsmul (totalPriceForProduct q) vat_rate,
           totalSubtotal =
             jsadd (totalPriceForProduct q) (jsmul (totalPriceForProduct q) vat_rate) \<rparr> \<and>
   (idle w \<and> faults w = [] \<and> \<not> pool_down w \<and> qid \<noteq> [] \<and> quotations (db w) qid = Some r \<and>
    custom_id r \<noteq> None \<and> b_products body = Some (map Some ps) \<longrightarrow>
      succeeded (fst (put_quotation qid body w)) \<and>
      (\<exists>r'. quotations (committed (snd (put_quotation qid body w))) qid = Some r' \<and>
         total_price r' = foldl jsadd zero (map totalPriceForProduct ps) \<and>
         total_vat r' =
           foldl jsadd zero (map (\<lambda>p. jsmul (totalPriceForProduct p) vat_rate) ps) \<and>
         total_subtotal r' =
           foldl jsadd zero
             (map (\<lambda>p. jsadd (totalPriceForProduct p) (jsmul (totalPriceForProduct p) vat_rate))
                ps))) \<and>
   (idle w \<and> b_products body = Some items \<and> None \<in> set items \<longrightarrow>
      \<not> succeeded (fst (put_quotation qid body w)) \<and>
      committed (snd (put_quotation qid body w)) = db w \<and>
      (faults w = [] \<and> \<not> pool_down w \<and> qid \<noteq> [] \<and> quotations (db w) qid \<noteq> None \<longrightarrow>
         status_code (fst (put_quotation qid body w)) = Some 500))"
  (is "?sums \<and> ?none \<and> ?null \<and> ?item \<and> ?nan \<and> ?undef \<and> ?jnull \<and> ?one \<and> ?request \<and> ?thrown")
proof -
  have eq: "vat_of = (\<lambda>p. jsmul (totalPriceForProduct p) vat_rate)"
    "subtotal_of = (\<lambda>p. jsadd (totalPriceForProduct p) (jsmul (totalPriceForProduct p) vat_rate))"
    by (auto simp: vat_of_def subtotal_of_def)
  have ?sums using calcTotals_sums [of ps] by (simp add: eq)
  moreover have ?none by (simp add: calcTotals_def)
  moreover have ?null by (rule calcTotals_null)
  moreover have ?item by (simp add: totalPriceForProduct_def)
  moreover have ?nan by (simp add: numeric_NaN)
  moreover have ?undef ?jnull by (simp_all add: numeric_missing)
  moreover have ?one by (rule single_item_totals)
  moreover have ?request using revision_totals [of w qid r body ps] by (simp add: eq)
  moreover have ?thrown using null_item_fails [of w body items qid] by simp
  ultimately show ?thesis by (intro conjI)
qed

text \<open>
  Three of 10 and a line whose price is no number and whose quantity is missing: 30, 4.5
  and 34.5, also as the totals the revision of quotation 7 stores; a revision whose only
  line item is \<open>null\<close> is answered 500.
\<close>

theorem line_item_totals_witness:
  "parseFloat (JString ''abc'') = NaN \<and> numeric (JString ''abc'') = Fin 0 0 \<and>
   calcTotals (Some [Some (example_item (JString ''10'') (JNumber (Fin 3 0))),
                     Some (example_item (JString ''abc'') JUndefined)]) =
     Inr \<lparr> totalPrice = Fin 15 1, totalVat = Fin 9 (- 1), totalSubtotal = Fin 69 (- 1) \<rparr> \<and>
   idle (example_world []) \<and> faults (example_world []) = [] \<and> \<not> pool_down (example_world []) \<and>
   quotations (db (example_world [])) ''7'' = Some example_quotation \<and>
   custom_id example_quotation \<noteq> None \<and>
   succeeded (fst (put_quotation ''7''
     (example_body (Some [Some (example_item (JString ''10'') (JNumber (Fin 3 0))),
                          Some (example_item (JString ''abc'') JUndefined)]) JUndefined)
     (example_world []))) \<and>
   (\<exists>r'. quotations (committed (snd (put_quotation ''7''
       (example_body (Some [Some (example_item (JString ''10'') (JNumber (Fin 3 0))),
                            Some (example_item (JString ''abc'') JUndefined)]) JUndefined)
       (example_world [])))) ''7'' = Some r' \<and>
      total_price r' = Fin 15 1 \<and> total_vat r' = Fin 9 (- 1) \<and> total_subtotal r' = Fin 69 (- 1)) \<and>
   None \<in> set [None :: product option] \<and>
   status_code (fst (put_quotation ''7'' (example_body (Some [None]) JUndefined)
     (example_world []))) = Some 500"
proof -
  let ?ps = "[example_item (JString ''10'') (JNumber (Fin 3 0)),
              example_item (JString ''abc'') JUndefined]"
  let ?w = "example_world []"
  let ?b = "example_body (Some (map Some ?ps)) JUndefined"
  let ?n = "example_body (Some [None]) JUndefined"
  have h: "parseFloat (JString ''abc'') = NaN" by code_simp
  have s: "foldl jsadd zero (map totalPriceForProduct ?ps) = Fin 15 1"
    "foldl jsadd zero (map (\<lambda>p. jsmul (totalPriceForProduct p) vat_rate) ?ps) = Fin 9 (- 1)"
    "foldl jsadd zero
       (map (\<lambda>p. jsadd (totalPriceForProduct p) (jsmul (totalPriceForProduct p) vat_rate)) ?ps) =
     Fin 69 (- 1)"
    by code_simp+
  have w: "idle ?w" "faults ?w = []" "\<not> pool_down ?w"
    "quotations (db ?w) ''7'' = Some example_quotation" "custom_id example_quotation \<noteq> None"
    by (simp_all add: idle_def example_world_def example_database_def example_quotation_def)
  have b: "b_products ?b = Some (map Some ?ps)" "b_products ?n = Some [None]"
    by (simp_all add: example_body_def)
  note t1 = line_item_totals [of ?ps "[None]" "example_item (JString ''10'') (JNumber (Fin 3 0))"
      "JString ''abc''" "example_item (JString ''10'') (JNumber (Fin 3 0))" ?w "''7''"
      example_quotation ?b]
  note t2 = line_item_totals [of ?ps "[None]" "example_item (JString ''10'') (JNumber (Fin 3 0))"
      "JString ''abc''" "example_item (JString ''10'') (JNumber (Fin 3 0))" ?w "''7''"
      example_quotation ?n]
  from t1 h have a1: "numeric (JString ''abc'') = Fin 0 0" by (simp add: zero_def)
  from t1 s have a2: "calcTotals (Some (map Some ?ps)) =
      Inr \<lparr> totalPrice = Fin 15 1, totalVat = Fin 9 (- 1), totalSubtotal = Fin 69 (- 1) \<rparr>"
    by simp
  from t1 w b(1) have a3: "succeeded (fst (put_quotation ''7'' ?b ?w))"
    "\<exists>r'. quotations (committed (snd (put_quotation ''7'' ?b ?w))) ''7'' = Some r' \<and>
       total_price r' = Fin 15 1 \<and> total_vat r' = Fin 9 (- 1) \<and> total_subtotal r' = Fin 69 (- 1)"
    unfolding s by blast+
  from t2 w b(2) have a4: "status_code (fst (put_quotation ''7'' ?n ?w)) = Some 500" by simp
  from h a1 a2 a3 a4 w show ?thesis by simp
qed

text \<open>
  Two line items of 2 and of 7: the total price is 9 and the total VAT 1.35, which is not
  the double \<open>0.15 * 9\<close>; the total subtotal is not the double \<open>9 + 1.35\<close>. A list whose
  only line item is \<open>null\<close> fails the request.
\<close>

theorem totals_identities_fail:
  "calcTotals (Some [Some (example_item (JNumber (Fin 1 1)) (JNumber (Fin 1 0))),
                     Some (example_item (JNumber (Fin 7 0)) (JNumber (Fin 1 0)))]) =
     Inr \<lparr> totalPrice = Fin 9 0, totalVat = Fin 3039929748475085 (- 51),
           totalSubtotal = Fin 1456633004477645 (- 47) \<rparr> \<and>
   Fin 3039929748475085 (- 51) \<noteq> jsmul (Fin 9 0) vat_rate \<and>
   Fin 3039929748475085 (- 51) \<noteq> jsmul vat_rate (Fin 9 0) \<and>
   Fin 1456633004477645 (- 47) \<noteq> jsadd (Fin 9 0) (Fin 3039929748475085 (- 51)) \<and>
   status_code (fst (put_quotation ''7'' (example_body (Some [None]) JUndefined)
     (example_world []))) = Some 500"
  by code_simp

end
